theory Spec2Isabelle
  imports Main "HOL-Library.Sublist"
begin

unbundle bit_operations_syntax

text \<open>
  The module \<open>msmbuilder/io/project_template.py\<close> writes the skeleton of a project from
  a tree of templates: \<open>MetadataPackageLoader.get_source\<close> cuts the metadata block out of
  a template source, \<open>Template\<close> renders one template and writes it with the writer of
  its kind, and \<open>TemplateDir.render\<close> renders the files of a directory, links their
  dependencies and descends into the subdirectories. This theory embeds these functions
  (with the semantics of Python 3) over a state that holds the file system, the working
  directory and the loader's dictionary, every exception being a result \<open>Inl\<close> that
  carries the state of the moment it was raised.
\<close>

section \<open>Python strings and slices\<close>

text \<open>
  Python strings are modelled as \<^typ>\<open>string\<close>, one \<^typ>\<open>char\<close> per character; the
  templates of the project are ASCII text. \<open>s.find(sub)\<close> is the lowest index at which
  \<open>sub\<close> occurs in \<open>s\<close>, or \<open>-1\<close>.
\<close>

fun str_find_from :: "string \<Rightarrow> string \<Rightarrow> nat \<Rightarrow> int" where
  "str_find_from [] sub i = (if sub = [] then int i else - 1)"
| "str_find_from (c # cs) sub i =
     (if prefix sub (c # cs) then int i else str_find_from cs sub (Suc i))"

definition str_find :: "string \<Rightarrow> string \<Rightarrow> int" where
  "str_find s sub = str_find_from s sub 0"

text \<open>
  Slices \<open>s[i:]\<close>, \<open>s[:j]\<close> and \<open>s[i:j]\<close>: a negative index counts from the end, and
  every index is clamped to the range of the string, as Python does.
\<close>

definition slice_index :: "nat \<Rightarrow> int \<Rightarrow> nat" where
  "slice_index n i = (if i < 0 then nat (max 0 (int n + i)) else min (nat i) n)"

definition slice_from :: "'a list \<Rightarrow> int \<Rightarrow> 'a list" where
  "slice_from s i = drop (slice_index (length s) i) s"

definition slice_upto :: "'a list \<Rightarrow> int \<Rightarrow> 'a list" where
  "slice_upto s j = take (slice_index (length s) j) s"

definition slice :: "'a list \<Rightarrow> int \<Rightarrow> int \<Rightarrow> 'a list" where
  "slice s i j = drop (slice_index (length s) i) (take (slice_index (length s) j) s)"

text \<open>\<open>s.split(c)\<close> for a one-character separator: one piece more than separators.\<close>

fun split_on :: "char \<Rightarrow> string \<Rightarrow> string list" where
  "split_on c [] = [[]]"
| "split_on c (x # xs) =
     (if x = c then [] # split_on c xs
      else (case split_on c xs of [] \<Rightarrow> [[x]] | p # ps \<Rightarrow> (x # p) # ps))"

text \<open>
  \<open>s.replace(old, new)\<close> replaces the occurrences of \<open>old\<close> from left to right, without
  overlap; for an empty \<open>old\<close> Python puts \<open>new\<close> before every character and at the end.
\<close>

function str_replace :: "string \<Rightarrow> string \<Rightarrow> string \<Rightarrow> string" where
  "str_replace [] old new = (if old = [] then new else [])"
| "str_replace (c # cs) old new =
     (if old = [] then new @ c # str_replace cs old new
      else if prefix old (c # cs) then new @ str_replace (drop (length old) (c # cs)) old new
      else c # str_replace cs old new)"
  by pat_completeness auto
termination
  by (relation "measure (\<lambda>(s, old, new). length s)") auto

text \<open>
  \<open>s.strip()\<close> removes leading and trailing whitespace: the characters up to \<open>0xFF\<close>
  for which \<open>str.isspace\<close> holds are tab, line feed, vertical tab, form feed, carriage
  return, the four separators \<open>0x1C\<close> to \<open>0x1F\<close>, the space, the next-line control
  \<open>0x85\<close> and the no-break space \<open>0xA0\<close>.
\<close>

definition isspace :: "char \<Rightarrow> bool" where
  "isspace c = (c \<in> set [CHR 0x09, CHR 0x0A, CHR 0x0B, CHR 0x0C, CHR 0x0D,
                          CHR 0x1C, CHR 0x1D, CHR 0x1E, CHR 0x1F, CHR 0x20,
                          CHR 0x85, CHR 0xA0])"

definition strip :: "string \<Rightarrow> string" where
  "strip s = rev (dropWhile isspace (rev (dropWhile isspace s)))"

text \<open>
  \<open>re.split(r'## (.*)\n', s)\<close>. The pattern matches at a position where the text
  \<open>"## "\<close> stands and a line feed follows somewhere behind it: \<open>.\<close> matches every
  character but the line feed, so the group is the text up to the first line feed. The
  scan goes from left to right and goes on behind each match; the result alternates the
  text between matches with the groups.
\<close>

definition match_heading :: "string \<Rightarrow> (string \<times> string) option" where
  "match_heading s =
     (if prefix ''## '' s \<and> CHR 0x0A \<in> set (drop 3 s)
      then Some (takeWhile (\<lambda>c. c \<noteq> CHR 0x0A) (drop 3 s),
                 drop 1 (dropWhile (\<lambda>c. c \<noteq> CHR 0x0A) (drop 3 s)))
      else None)"

lemma match_heading_shorter:
  "match_heading s = Some (title, rest) \<Longrightarrow> length rest < length s"
proof -
  assume "match_heading s = Some (title, rest)"
  then have r: "rest = drop 1 (dropWhile (\<lambda>c. c \<noteq> CHR 0x0A) (drop 3 s))" and p: "prefix ''## '' s"
    by (auto simp: match_heading_def split: if_splits)
  have "length (dropWhile (\<lambda>c. c \<noteq> CHR 0x0A) (drop 3 s)) \<le> length (drop 3 s)"
    by (rule length_dropWhile_le)
  moreover from p have "3 \<le> length s"
    by (auto simp: prefix_def)
  ultimately show ?thesis
    using r by simp
qed

function re_split_heading :: "string \<Rightarrow> string \<Rightarrow> string list" where
  "re_split_heading acc [] = [rev acc]"
| "re_split_heading acc (c # cs) =
     (case match_heading (c # cs) of
        Some (title, rest) \<Rightarrow> rev acc # title # re_split_heading [] rest
      | None \<Rightarrow> re_split_heading (c # acc) cs)"
  by pat_completeness auto
termination
  by (relation "measure (\<lambda>(acc, s). length s)") (auto dest: match_heading_shorter)

definition re_split :: "string \<Rightarrow> string list" where
  "re_split s = re_split_heading [] s"

text \<open>The extended slice \<open>xs[::2]\<close>: the elements at the even indices.\<close>

fun step2 :: "'a list \<Rightarrow> 'a list" where
  "step2 [] = []"
| "step2 [x] = [x]"
| "step2 (x # y # xs) = x # step2 xs"

section \<open>Values, errors and the external collaborators\<close>

text \<open>
  What \<open>yaml.load\<close> returns: \<open>None\<close> for an empty document, a string for a plain scalar,
  a list for a sequence and a dict for a mapping. Other scalars (numbers, booleans) are
  not told apart from \<open>None\<close>: like \<open>None\<close> they are hashable, are not iterable and are
  not path names, which is all this module asks of a value. Mapping keys are strings.
\<close>

datatype yval = YNull | YStr string | YSeq "yval list" | YMap "(string \<times> yval) list"

datatype error =
    TemplateNotFound | TemplateSyntaxError | YAMLError | UndefinedError
  | TypeError | KeyError | OSError
  | FileExistsError | FileNotFoundError | IsADirectoryError | NotADirectoryError

text \<open>
  The libraries the module calls are parameters of the model: the package loader's
  store of template sources (a template name gives the source text and the file name the
  loader reports), the YAML decoder, the template engine (compiling a source, and
  rendering it with the \<open>header\<close> and the \<open>date\<close>), the clock's \<open>isoformat\<close>, the order in
  which a Python \<open>set\<close> is iterated (some arrangement of its elements; it follows the
  hashes of the strings, which differ from one process to the next), and the umask of
  the process.
\<close>

record env =
  store :: "string \<Rightarrow> (string \<times> string) option"
  yaml_load :: "string \<Rightarrow> error + yval"
  jinja_compile :: "string \<Rightarrow> error option"
  jinja_render :: "string \<Rightarrow> string \<Rightarrow> string \<Rightarrow> error + string"
  isoformat :: "nat \<Rightarrow> string"
  set_iter :: "yval list \<Rightarrow> yval list"
  umask :: nat

section \<open>The file system and the state of a run\<close>

text \<open>
  A notebook is the list of its cells and the kernel it names; \<open>nbformat\<close> writes it as
  it is. A file holds text or a notebook, and its permission bits.
\<close>

datatype cell = Markdown string | Code string

record notebook =
  cells :: "cell list"
  kernelspec_name :: string
  kernelspec_display_name :: string

datatype content = Text string | Notebook notebook

datatype node = File content nat | Dir | Link string

text \<open>
  A path is the list of its components from the root. The events of a run are the calls
  that reached the file system, each with the argument the module passed.
\<close>

type_synonym path = "string list"

datatype event =
    EvBackup string
  | EvWrite string content
  | EvChmod string
  | EvSymlink string string
  | EvMkdir string
  | EvChdir string

text \<open>
  The state a run reads and changes: the working directory, the file system, what
  \<open>backup\<close> has renamed aside (the path and the tree that stood there), the loader's
  \<open>meta\<close> dictionary (a class attribute, shared by all lookups), the clock, and the events
  so far.
\<close>

record state =
  cwd :: path
  fs :: "path \<Rightarrow> node option"
  backups :: "(path \<times> (path \<Rightarrow> node option)) list"
  meta :: "string \<Rightarrow> yval option"
  clock :: nat
  trace :: "event list"

type_synonym 'a result = "(error + 'a) \<times> state"

definition and_then :: "'a result \<Rightarrow> ('a \<Rightarrow> state \<Rightarrow> 'b result) \<Rightarrow> 'b result" where
  "and_then r f = (case r of (Inl e, s) \<Rightarrow> (Inl e, s) | (Inr x, s) \<Rightarrow> f x s)"

subsection \<open>Paths\<close>

text \<open>
  \<open>os.path.basename\<close> is the text behind the last slash. \<open>os.path.abspath\<close> works on
  the text alone: it joins the name to the working directory, drops empty components and
  \<open>.\<close>, and cancels a component against the \<open>..\<close> behind it, whether or not anything
  stands at that place.
\<close>

definition basename :: "string \<Rightarrow> string" where
  "basename p = last (split_on CHR ''/'' p)"

fun norm_parts :: "path \<Rightarrow> string list \<Rightarrow> path" where
  "norm_parts p [] = p"
| "norm_parts p (c # cs) =
     (if c = [] \<or> c = ''.'' then norm_parts p cs
      else if c = ''..'' then norm_parts (butlast p) cs
      else norm_parts (p @ [c]) cs)"

definition resolve :: "path \<Rightarrow> string \<Rightarrow> path" where
  "resolve d p = norm_parts (if prefix ''/'' p then [] else d) (split_on CHR ''/'' p)"

definition path_str :: "path \<Rightarrow> string" where
  "path_str p = (if p = [] then ''/'' else concat (map (\<lambda>c. CHR ''/'' # c) p))"

definition os_path_abspath :: "string \<Rightarrow> state \<Rightarrow> string" where
  "os_path_abspath p st = path_str (resolve (cwd st) p)"

text \<open>
  The calls that reach the file system do not work on the text: the kernel walks the
  name component by component through the directories that are there. An empty
  component, \<open>.\<close> and \<open>..\<close> are looked up in the place reached so far, which has to be
  a directory: the walk fails with \<open>ENOENT\<close> when nothing is there and with \<open>ENOTDIR\<close>
  when something else is. So \<open>a/../b\<close> fails when \<open>a\<close> is missing, where the text
  \<open>a/../b\<close> normalises to \<open>b\<close>. The root always exists, and its \<open>..\<close> is the root. The
  directories on the way are taken to be real directories (no symbolic link to a
  directory is followed on the way).
\<close>

definition lookup :: "(path \<Rightarrow> node option) \<Rightarrow> path \<Rightarrow> node option" where
  "lookup f q = (if q = [] then Some Dir else f q)"

fun walk :: "(path \<Rightarrow> node option) \<Rightarrow> path \<Rightarrow> string list \<Rightarrow> error + path" where
  "walk f p [] = Inr p"
| "walk f p (c # cs) =
     (if c = [] \<or> c = ''.'' \<or> c = ''..''
      then (case lookup f p of
              None \<Rightarrow> Inl FileNotFoundError
            | Some Dir \<Rightarrow> walk f (if c = ''..'' then butlast p else p) cs
            | Some _ \<Rightarrow> Inl NotADirectoryError)
      else walk f (p @ [c]) cs)"

definition kresolve :: "(path \<Rightarrow> node option) \<Rightarrow> path \<Rightarrow> string \<Rightarrow> error + path" where
  "kresolve f d p = walk f (if prefix ''/'' p then [] else d) (split_on CHR ''/'' p)"

text \<open>
  A symbolic link in the last place is followed, its target walked from the directory of
  the link, at most forty times (the kernel's limit, \<open>ELOOP\<close> beyond it). An empty
  target leads nowhere.
\<close>

fun follow :: "(path \<Rightarrow> node option) \<Rightarrow> nat \<Rightarrow> path \<Rightarrow> error + path" where
  "follow f 0 q = (case lookup f q of Some (Link t) \<Rightarrow> Inl OSError | _ \<Rightarrow> Inr q)"
| "follow f (Suc n) q =
     (case lookup f q of
        Some (Link t) \<Rightarrow>
          (if t = [] then Inl FileNotFoundError
           else case kresolve f (butlast q) t of
                  Inl e \<Rightarrow> Inl e
                | Inr q' \<Rightarrow> follow f n q')
      | _ \<Rightarrow> Inr q)"

definition realpath :: "string \<Rightarrow> state \<Rightarrow> error + path" where
  "realpath p st =
     (if p = [] then Inl FileNotFoundError
      else case kresolve (fs st) (cwd st) p of
             Inl e \<Rightarrow> Inl e
           | Inr q \<Rightarrow> follow (fs st) 40 q)"

subsection \<open>The calls of the \<open>os\<close> module\<close>

text \<open>
  \<open>os.path.exists\<close> follows symbolic links: it is false for a link whose target is
  missing. \<open>os.symlink\<close> and \<open>os.mkdir\<close> do not: they fail when anything, a dangling
  link too, stands at the path.
\<close>

definition os_path_exists :: "string \<Rightarrow> state \<Rightarrow> bool" where
  "os_path_exists p st =
     (case realpath p st of Inl e \<Rightarrow> False | Inr q \<Rightarrow> lookup (fs st) q \<noteq> None)"

definition create :: "string \<Rightarrow> node \<Rightarrow> event \<Rightarrow> state \<Rightarrow> unit result" where
  "create p n ev st =
     (if p = [] then (Inl FileNotFoundError, st)
      else case kresolve (fs st) (cwd st) p of
             Inl e \<Rightarrow> (Inl e, st)
           | Inr q \<Rightarrow>
               if lookup (fs st) q \<noteq> None then (Inl FileExistsError, st)
               else if lookup (fs st) (butlast q) = None then (Inl FileNotFoundError, st)
               else if lookup (fs st) (butlast q) \<noteq> Some Dir then (Inl NotADirectoryError, st)
               else (Inr (), st\<lparr>fs := (fs st)(q \<mapsto> n), trace := trace st @ [ev]\<rparr>))"

definition os_symlink :: "string \<Rightarrow> string \<Rightarrow> state \<Rightarrow> unit result" where
  "os_symlink src dst st = create dst (Link src) (EvSymlink src dst) st"

definition os_mkdir :: "string \<Rightarrow> state \<Rightarrow> unit result" where
  "os_mkdir p st = create p Dir (EvMkdir p) st"

definition os_chdir :: "string \<Rightarrow> state \<Rightarrow> unit result" where
  "os_chdir p st =
     (case realpath p st of
        Inl e \<Rightarrow> (Inl e, st)
      | Inr q \<Rightarrow>
          (case lookup (fs st) q of
             None \<Rightarrow> (Inl FileNotFoundError, st)
           | Some Dir \<Rightarrow> (Inr (), st\<lparr>cwd := q, trace := trace st @ [EvChdir p]\<rparr>)
           | Some _ \<Rightarrow> (Inl NotADirectoryError, st)))"

text \<open>
  \<open>with open(p, 'w') as f: f.write(...)\<close>: the file is created with the mode the umask
  leaves of \<open>0o666\<close>, or truncated and written with its mode kept; a link in the last
  place is written through.
\<close>

definition open_write :: "env \<Rightarrow> string \<Rightarrow> content \<Rightarrow> state \<Rightarrow> unit result" where
  "open_write E p c st =
     (case realpath p st of
        Inl e \<Rightarrow> (Inl e, st)
      | Inr q \<Rightarrow>
          (case lookup (fs st) q of
             Some Dir \<Rightarrow> (Inl IsADirectoryError, st)
           | Some (Link t) \<Rightarrow> (Inl OSError, st)
           | Some (File old m) \<Rightarrow>
               (Inr (), st\<lparr>fs := (fs st)(q \<mapsto> File c m), trace := trace st @ [EvWrite p c]\<rparr>)
           | None \<Rightarrow>
               if lookup (fs st) (butlast q) = None then (Inl FileNotFoundError, st)
               else if lookup (fs st) (butlast q) \<noteq> Some Dir then (Inl NotADirectoryError, st)
               else (Inr (), st\<lparr>fs := (fs st)(q \<mapsto> File c (438 - (438 AND umask E))),
                                 trace := trace st @ [EvWrite p c]\<rparr>)))"

subsection \<open>The helpers of the \<open>io\<close> module\<close>

text \<open>
  Modelled from the spec: \<open>backup\<close> of the module \<open>io\<close>, which is not among the sources.
  If a file of the same name already exists, it is renamed aside. The name a backup gets
  is not stated, so the model keeps what was renamed (the path, and the tree that stood
  there) in \<^const>\<open>backups\<close>, outside the file system; nothing is left at the path.
  When the name exists its walk has passed, and the path the walk reaches is the one
  the text normalises to.
\<close>

definition backup :: "string \<Rightarrow> state \<Rightarrow> unit result" where
  "backup fn st =
     (let q = resolve (cwd st) fn in
      if os_path_exists fn st
      then (Inr (), st\<lparr>fs := (\<lambda>p. if prefix q p then None else fs st p),
                       backups := backups st @ [(q, \<lambda>p. fs st (q @ p))],
                       trace := trace st @ [EvBackup fn]\<rparr>)
      else (Inr (), st\<lparr>trace := trace st @ [EvBackup fn]\<rparr>))"

text \<open>
  Modelled from the spec: \<open>chmod_plus_x\<close> of the module \<open>io\<close>, which is not among the
  sources. It adds the execute bits for owner, group and other (\<open>0o111\<close>) and removes
  none.
\<close>

definition chmod_plus_x :: "string \<Rightarrow> state \<Rightarrow> unit result" where
  "chmod_plus_x fn st =
     (case realpath fn st of
        Inl e \<Rightarrow> (Inl e, st)
      | Inr q \<Rightarrow>
          (case lookup (fs st) q of
             Some (File c m) \<Rightarrow>
               (Inr (), st\<lparr>fs := (fs st)(q \<mapsto> File c (m OR 73)), trace := trace st @ [EvChmod fn]\<rparr>)
           | Some _ \<Rightarrow> (Inr (), st\<lparr>trace := trace st @ [EvChmod fn]\<rparr>)
           | None \<Rightarrow> (Inl FileNotFoundError, st)))"

section \<open>The metadata loader\<close>

definition beg_str :: string where
  "beg_str = ''Meta\<newline>----\<newline>''"

definition end_str :: string where
  "end_str = [CHR 0x0A, CHR 0x22, CHR 0x22, CHR 0x22, CHR 0x0A]"

text \<open>
  \<open>MetadataPackageLoader.get_source\<close>. The loader of the base class finds the source or
  raises; the third component of its result (the \<open>uptodate\<close> callable) is passed on
  untouched and left out here. The decoded block is stored under the file name; when the
  decoder raises, nothing is stored.
\<close>

definition get_source :: "env \<Rightarrow> string \<Rightarrow> state \<Rightarrow> (string \<times> string) result" where
  "get_source E template st =
     (case store E template of
        None \<Rightarrow> (Inl TemplateNotFound, st)
      | Some (source, filename) \<Rightarrow>
          (let beg = str_find source beg_str in
           if beg = - 1
           then (Inr (source, filename), st\<lparr>meta := (meta st)(filename \<mapsto> YMap [])\<rparr>)
           else
             (let en = str_find (slice_from source beg) end_str + beg in
              case yaml_load E (slice source (beg + int (length beg_str)) en) of
                Inl e \<Rightarrow> (Inl e, st)
              | Inr v \<Rightarrow>
                  (Inr (slice_upto source beg @ slice_from source en, filename),
                   st\<lparr>meta := (meta st)(filename \<mapsto> v)\<rparr>))))"

section \<open>Templates and their writers\<close>

datatype write_func = WriteGeneric | WritePython | WriteShell | WriteIpython

text \<open>
  The table \<open>write_funcs\<close> of \<open>Template.__init__\<close>: a \<open>defaultdict\<close> whose default is
  the generic writer, with the keys \<open>py\<close> and \<open>sh\<close>; the flag \<open>ipynb\<close> replaces the
  entry of \<open>py\<close>.
\<close>

definition write_funcs :: "bool \<Rightarrow> string \<Rightarrow> write_func" where
  "write_funcs ipynb key =
     (if key = ''py'' then (if ipynb then WriteIpython else WritePython)
      else if key = ''sh'' then WriteShell
      else WriteGeneric)"

record template =
  template_fn :: string
  template_source :: string
  template_filename :: string
  template_meta :: yval
  write_func :: write_func

text \<open>
  \<open>ENV.get_template\<close> asks the loader for the source and compiles it. (The engine also
  keeps compiled templates in a cache; the store does not change during a run, so a
  second lookup stores the same metadata again.)
\<close>

definition get_template :: "env \<Rightarrow> string \<Rightarrow> state \<Rightarrow> (string \<times> string) result" where
  "get_template E template st =
     and_then (get_source E template st) (\<lambda>(source, filename) st1.
       case jinja_compile E source of
         Some e \<Rightarrow> (Inl e, st1)
       | None \<Rightarrow> (Inr (source, filename), st1))"

definition Template_init :: "env \<Rightarrow> string \<Rightarrow> bool \<Rightarrow> state \<Rightarrow> template result" where
  "Template_init E fn ipynb st =
     and_then (get_template E fn st) (\<lambda>(source, filename) st1.
       case meta st1 filename of
         None \<Rightarrow> (Inl KeyError, st1)
       | Some m \<Rightarrow>
           (Inr \<lparr>template_fn = fn, template_source = source, template_filename = filename,
                 template_meta = m,
                 write_func = write_funcs ipynb (last (split_on CHR ''.'' fn))\<rparr>, st1))"

definition get_header :: "env \<Rightarrow> state \<Rightarrow> string \<times> state" where
  "get_header E st =
     (''msmbuilder autogenerated template version 2'' @ ''\<newline>'' @
      (''created '' @ isoformat E (clock st)) @ ''\<newline>'' @
      ''please cite msmbuilder in any publications'',
      st\<lparr>clock := Suc (clock st)\<rparr>)"

definition write_generic :: "env \<Rightarrow> string \<Rightarrow> string \<Rightarrow> state \<Rightarrow> unit result" where
  "write_generic E templ_fn rendered st =
     and_then (backup templ_fn st) (\<lambda>_ st1. open_write E templ_fn (Text rendered) st1)"

definition write_python :: "env \<Rightarrow> string \<Rightarrow> string \<Rightarrow> state \<Rightarrow> unit result" where
  "write_python E templ_fn rendered st =
     and_then (backup templ_fn st) (\<lambda>_ st1. open_write E templ_fn (Text rendered) st1)"

definition write_shell :: "env \<Rightarrow> string \<Rightarrow> string \<Rightarrow> state \<Rightarrow> unit result" where
  "write_shell E templ_fn rendered st =
     and_then (backup templ_fn st) (\<lambda>_ st1.
     and_then (open_write E templ_fn (Text rendered) st1) (\<lambda>_ st2.
       chmod_plus_x templ_fn st2))"

text \<open>
  The cells of \<open>write_ipython\<close>: the file name goes in front of the pieces of the split,
  and the list is read off in pairs, \<open>zip(cell_texts[:-1:2], cell_texts[1::2])\<close>.
\<close>

definition ipython_cells :: "string \<Rightarrow> string \<Rightarrow> cell list" where
  "ipython_cells templ_ipynb_fn rendered =
     (let cell_texts = templ_ipynb_fn # re_split rendered in
      concat (map (\<lambda>(heading, content). [Markdown (''## '' @ strip heading), Code (strip content)])
                  (zip (step2 (butlast cell_texts)) (step2 (drop 1 cell_texts)))))"

definition write_ipython :: "env \<Rightarrow> string \<Rightarrow> string \<Rightarrow> state \<Rightarrow> unit result" where
  "write_ipython E templ_fn rendered st =
     (let templ_ipynb_fn = str_replace templ_fn ''.py'' ''.ipynb'';
          nb = \<lparr>cells = ipython_cells templ_ipynb_fn rendered,
                kernelspec_name = ''python3'',
                kernelspec_display_name = ''Python 3''\<rparr>
      in and_then (backup templ_ipynb_fn st) (\<lambda>_ st1.
           open_write E templ_ipynb_fn (Notebook nb) st1))"

definition call_write_func ::
  "env \<Rightarrow> write_func \<Rightarrow> string \<Rightarrow> string \<Rightarrow> state \<Rightarrow> unit result" where
  "call_write_func E w templ_fn rendered st =
     (case w of
        WriteGeneric \<Rightarrow> write_generic E templ_fn rendered st
      | WritePython \<Rightarrow> write_python E templ_fn rendered st
      | WriteShell \<Rightarrow> write_shell E templ_fn rendered st
      | WriteIpython \<Rightarrow> write_ipython E templ_fn rendered st)"

text \<open>\<open>Template.render\<close>: the clock is read for the header, then for the date.\<close>

definition Template_render :: "env \<Rightarrow> template \<Rightarrow> state \<Rightarrow> unit result" where
  "Template_render E templ st =
     (let (header, st1) = get_header E st;
          date = isoformat E (clock st1);
          st2 = st1\<lparr>clock := Suc (clock st1)\<rparr>
      in case jinja_render E (template_source templ) header date of
           Inl e \<Rightarrow> (Inl e, st2)
         | Inr rendered \<Rightarrow>
             call_write_func E (write_func templ) (basename (template_fn templ)) rendered st2)"

section \<open>Template directories\<close>

datatype TemplateDir =
  TemplateDir (name: string) (files: "string list") (subdirs: "TemplateDir list")

text \<open>
  The set \<open>depends\<close> is held as the list of its distinct elements, in the order they came
  in. \<open>'depends' in meta\<close> asks a dict for the key, a list for the element, a string for
  the substring, and fails on \<open>None\<close>; \<open>meta['depends']\<close> needs a dict; \<open>update\<close> adds
  the elements of a list, the characters of a string or the keys of a dict, and fails on
  what is not iterable and on elements that cannot be hashed (lists and dicts).
\<close>

definition contains_depends :: "yval \<Rightarrow> error + bool" where
  "contains_depends m =
     (case m of
        YMap kvs \<Rightarrow> Inr (map_of kvs ''depends'' \<noteq> None)
      | YSeq xs \<Rightarrow> Inr (YStr ''depends'' \<in> set xs)
      | YStr s \<Rightarrow> Inr (str_find s ''depends'' \<noteq> - 1)
      | YNull \<Rightarrow> Inl TypeError)"

definition getitem_depends :: "yval \<Rightarrow> error + yval" where
  "getitem_depends m =
     (case m of
        YMap kvs \<Rightarrow> (case map_of kvs ''depends'' of None \<Rightarrow> Inl KeyError | Some v \<Rightarrow> Inr v)
      | _ \<Rightarrow> Inl TypeError)"

definition hashable :: "yval \<Rightarrow> bool" where
  "hashable v = (case v of YSeq _ \<Rightarrow> False | YMap _ \<Rightarrow> False | _ \<Rightarrow> True)"

definition set_add :: "yval list \<Rightarrow> yval \<Rightarrow> yval list" where
  "set_add s x = (if x \<in> set s then s else s @ [x])"

definition set_update :: "yval list \<Rightarrow> yval \<Rightarrow> error + yval list" where
  "set_update s v =
     (case v of
        YSeq xs \<Rightarrow> if list_all hashable xs then Inr (foldl set_add s xs) else Inl TypeError
      | YStr str \<Rightarrow> Inr (foldl set_add s (map (\<lambda>c. YStr [c]) str))
      | YMap kvs \<Rightarrow> Inr (foldl set_add s (map (\<lambda>(k, _). YStr k) kvs))
      | YNull \<Rightarrow> Inl TypeError)"

definition update_depends :: "yval list \<Rightarrow> yval \<Rightarrow> error + yval list" where
  "update_depends depends m =
     (case contains_depends m of
        Inl e \<Rightarrow> Inl e
      | Inr False \<Rightarrow> Inr depends
      | Inr True \<Rightarrow> (case getitem_depends m of Inl e \<Rightarrow> Inl e | Inr v \<Rightarrow> set_update depends v))"

text \<open>
  \<open>TemplateDir.render_files\<close>: the loop over \<open>self.files\<close>, with the set built so far.
  Every template is made with \<open>Template(fn)\<close>, the flag \<open>ipynb\<close> left at its default.
\<close>

fun render_files_loop :: "env \<Rightarrow> string list \<Rightarrow> yval list \<Rightarrow> state \<Rightarrow> (yval list) result" where
  "render_files_loop E [] depends st = (Inr depends, st)"
| "render_files_loop E (fn # fns) depends st =
     (case Template_init E fn False st of
        (Inl e, st1) \<Rightarrow> (Inl e, st1)
      | (Inr templ, st1) \<Rightarrow>
          (case update_depends depends (template_meta templ) of
             Inl e \<Rightarrow> (Inl e, st1)
           | Inr depends' \<Rightarrow>
               (case Template_render E templ st1 of
                  (Inl e, st2) \<Rightarrow> (Inl e, st2)
                | (Inr _, st2) \<Rightarrow> render_files_loop E fns depends' st2)))"

definition render_files :: "env \<Rightarrow> string list \<Rightarrow> state \<Rightarrow> (yval list) result" where
  "render_files E fns st = render_files_loop E fns [] st"

text \<open>
  The loop over the dependencies in \<open>TemplateDir.render\<close>, in the order the set gives
  them. \<open>os.path.basename\<close> raises for what is not a string.
\<close>

fun link_depends :: "yval list \<Rightarrow> state \<Rightarrow> unit result" where
  "link_depends [] st = (Inr (), st)"
| "link_depends (dep # deps) st =
     (case dep of
        YStr d \<Rightarrow>
          (let bn = basename d in
           if \<not> os_path_exists bn st
           then (case os_symlink (''../'' @ d) bn st of
                   (Inl e, st1) \<Rightarrow> (Inl e, st1)
                 | (Inr _, st1) \<Rightarrow> link_depends deps st1)
           else link_depends deps st)
      | _ \<Rightarrow> (Inl TypeError, st))"

text \<open>
  \<open>TemplateDir.render\<close>, and its loop over \<open>self.subdirs\<close>. An exception leaves the loop
  and the call at once, with the state as it is at that moment.
\<close>

fun render :: "env \<Rightarrow> TemplateDir \<Rightarrow> state \<Rightarrow> unit result"
  and render_subdirs :: "env \<Rightarrow> TemplateDir list \<Rightarrow> state \<Rightarrow> unit result" where
  "render E (TemplateDir n fns sds) st =
     (case render_files E fns st of
        (Inl e, st1) \<Rightarrow> (Inl e, st1)
      | (Inr depends, st1) \<Rightarrow>
          (case link_depends (set_iter E depends) st1 of
             (Inl e, st2) \<Rightarrow> (Inl e, st2)
           | (Inr _, st2) \<Rightarrow> render_subdirs E sds st2))"
| "render_subdirs E [] st = (Inr (), st)"
| "render_subdirs E (subdir # rest) st =
     (case backup (name subdir) st of
        (Inl e, st1) \<Rightarrow> (Inl e, st1)
      | (Inr _, st1) \<Rightarrow>
          (case os_mkdir (name subdir) st1 of
             (Inl e, st2) \<Rightarrow> (Inl e, st2)
           | (Inr _, st2) \<Rightarrow>
               (let pwd = os_path_abspath ''.'' st2 in
                case os_chdir (name subdir) st2 of
                  (Inl e, st3) \<Rightarrow> (Inl e, st3)
                | (Inr _, st3) \<Rightarrow>
                    (case render E subdir st3 of
                       (Inl e, st4) \<Rightarrow> (Inl e, st4)
                     | (Inr _, st4) \<Rightarrow>
                         (case os_chdir pwd st4 of
                            (Inl e, st5) \<Rightarrow> (Inl e, st5)
                          | (Inr _, st5) \<Rightarrow> render_subdirs E rest st5)))))"

section \<open>The layout of the project\<close>




section \<open>Example inputs\<close>

text \<open>
  A decoder, an environment and a state to run the model on. The decoder knows four
  documents: the empty one (\<open>None\<close>), two mappings with a \<open>depends\<close> list, and a plain
  scalar. The engine of the example renders a source as it stands, the set is iterated in
  the order of insertion, and the umask is \<open>0o022\<close>.
\<close>

definition example_yaml :: "string \<Rightarrow> error + yval" where
  "example_yaml s =
     (if s = [] then Inr YNull
      else if s = ''depends:\<newline>  - meta.pickl''
      then Inr (YMap [(''depends'', YSeq [YStr ''meta.pickl''])])
      else if s = ''depends:\<newline>  - x\<newline>  - y''
      then Inr (YMap [(''depends'', YSeq [YStr ''x'', YStr ''y''])])
      else if s = ''ab'' then Inr (YStr ''ab'')
      else Inl YAMLError)"

definition example_env :: "(string \<times> string) list \<Rightarrow> env" where
  "example_env templates =
     \<lparr>store = (\<lambda>t. case map_of templates t of None \<Rightarrow> None | Some src \<Rightarrow> Some (src, ''/pkg/'' @ t)),
      yaml_load = example_yaml,
      jinja_compile = (\<lambda>src. None),
      jinja_render = (\<lambda>src header date. Inr src),
      isoformat = (\<lambda>n. ''2016''),
      set_iter = (\<lambda>xs. xs),
      umask = 18\<rparr>"

definition example_state :: state where
  "example_state =
     \<lparr>cwd = [''proj''], fs = [[''proj''] \<mapsto> Dir], backups = [], meta = Map.empty,
      clock = 0, trace = []\<rparr>"

text \<open>
  A template as the project has them: a docstring that ends in the metadata block, and
  code behind it. And one whose block is never closed.
\<close>

definition example_pre :: string where
  "example_pre = [CHR 0x22, CHR 0x22, CHR 0x22] @ ''Doc\<newline>\<newline>''"

definition example_body :: string where
  "example_body = ''depends:\<newline>  - meta.pickl''"

definition example_post :: string where
  "example_post = ''print(1)\<newline>''"

definition example_source :: string where
  "example_source = example_pre @ beg_str @ example_body @ end_str @ example_post"

definition example_unclosed :: string where
  "example_unclosed = ''x\<newline>'' @ beg_str @ ''depends: q''"

text \<open>The rendered text of the notebook scenario.\<close>

definition example_rendered :: string where
  "example_rendered = ''## Setup\<newline>import os\<newline>## Run\<newline>print(1)\<newline>''"

text \<open>
  Small layouts: a root with a file and a subdirectory that holds a shell script, with the
  templates they name; a template that declares the dependencies \<open>x\<close> and \<open>y\<close>, in
  this order; and a layout whose subdirectory names a template the store does not have.
\<close>

definition example_tree :: TemplateDir where
  "example_tree = TemplateDir [] [''a.py''] [TemplateDir ''sub'' [''sub/run.sh''] []]"

definition example_templates :: "(string \<times> string) list" where
  "example_templates = [(''a.py'', ''print(1)''), (''sub/run.sh'', ''echo'')]"

definition example_two_deps :: string where
  "example_two_deps =
     example_pre @ beg_str @ ''depends:\<newline>  - x\<newline>  - y'' @ end_str @ example_post"

definition example_failing_tree :: TemplateDir where
  "example_failing_tree = TemplateDir [] [] [TemplateDir ''sub'' [''missing.py''] []]"

text \<open>
  Two siblings: the child \<open>a\<close> holds a file whose template is there, the child \<open>b\<close> names
  a template the store does not have.
\<close>

definition example_child_a :: TemplateDir where
  "example_child_a = TemplateDir ''a'' [''a/x.py''] []"

definition example_child_b :: TemplateDir where
  "example_child_b = TemplateDir ''b'' [''missing.py''] []"

lemmas example_defs =
  example_env_def example_state_def example_yaml_def example_source_def example_pre_def
  example_body_def example_post_def beg_str_def end_str_def

section \<open>Notions used in the statements\<close>

text \<open>
  A writer called in the state \<open>st\<close> with the result \<open>r\<close> backs up its target \<open>t\<close>
  before it writes: the events it adds start with the backup of \<open>t\<close>, the events
  \<open>writes\<close> follow when the call succeeds and nothing follows when it fails; and every
  path of the file system is as before, or was free before, or lies at or under the
  target and was renamed aside by that backup.
\<close>

definition backup_before_write :: "unit result \<Rightarrow> state \<Rightarrow> string \<Rightarrow> event list \<Rightarrow> bool" where
  "backup_before_write r st t writes =
     (trace (snd r) = trace st @ EvBackup t # (case fst r of Inl e \<Rightarrow> [] | Inr u \<Rightarrow> writes)
      \<and> (\<forall>p. fs (snd r) p = fs st p \<or> fs st p = None
             \<or> (os_path_exists t st \<and> prefix (resolve (cwd st) t) p
                \<and> backups (snd r) = backups st @
                     [(resolve (cwd st) t, \<lambda>x. fs st (resolve (cwd st) t @ x))])))"

text \<open>The events of a trace that write a notebook.\<close>

definition notebook_writes :: "event list \<Rightarrow> event list" where
  "notebook_writes evs =
     filter (\<lambda>e. case e of EvWrite p (Notebook nb) \<Rightarrow> True | _ \<Rightarrow> False) evs"

text \<open>
  What a run creates, in the order of the events: the files it writes and the
  directories it makes, each under the name the module passed. And what a layout
  declares, in the order of declaration: the files of a node by their base names, then
  each subdirectory, followed by what it declares in turn.
\<close>

datatype item = NewFile string | NewDir string

fun created :: "event list \<Rightarrow> item list" where
  "created [] = []"
| "created (EvWrite p c # evs) = NewFile p # created evs"
| "created (EvMkdir p # evs) = NewDir p # created evs"
| "created (e # evs) = created evs"

fun declared :: "TemplateDir \<Rightarrow> item list"
  and declared_subdirs :: "TemplateDir list \<Rightarrow> item list" where
  "declared (TemplateDir n fns sds) = map (\<lambda>fn. NewFile (basename fn)) fns @ declared_subdirs sds"
| "declared_subdirs [] = []"
| "declared_subdirs (d # ds) = NewDir (name d) # declared d @ declared_subdirs ds"

text \<open>The links of a trace, each with its target and its name.\<close>

fun symlinks :: "event list \<Rightarrow> (string \<times> string) list" where
  "symlinks [] = []"
| "symlinks (EvSymlink src dst # evs) = (src, dst) # symlinks evs"
| "symlinks (e # evs) = symlinks evs"

text \<open>
  A plain name is one path component: not empty, not \<open>.\<close> or \<open>..\<close>, without a slash.
  In a plain layout the base name of every file and the name of every subdirectory is
  plain, as in the layout of the project.
\<close>

definition plain_name :: "string \<Rightarrow> bool" where
  "plain_name s = (s \<noteq> [] \<and> s \<noteq> ''.'' \<and> s \<noteq> ''..'' \<and> CHR ''/'' \<notin> set s)"

fun plain_tree :: "TemplateDir \<Rightarrow> bool" where
  "plain_tree (TemplateDir n fns sds) =
     (list_all (\<lambda>fn. plain_name (basename fn)) fns
      \<and> list_all (\<lambda>d. plain_name (name d) \<and> plain_tree d) sds)"

text \<open>
  For the proofs: the directories of \<open>st\<close> are still directories in \<open>st'\<close>, all of
  them, or all but those strictly below \<open>c\<close>.
\<close>

definition dirs_kept :: "state \<Rightarrow> state \<Rightarrow> bool" where
  "dirs_kept st st' = (\<forall>P. lookup (fs st) P = Some Dir \<longrightarrow> lookup (fs st') P = Some Dir)"

definition keep_dirs :: "path \<Rightarrow> state \<Rightarrow> state \<Rightarrow> bool" where
  "keep_dirs c st st' =
     (\<forall>P. lookup (fs st) P = Some Dir \<and> \<not> strict_prefix c P \<longrightarrow> lookup (fs st') P = Some Dir)"

section \<open>Searching and slicing\<close>

text \<open>
  \<open>find\<close> answers \<open>-1\<close> exactly when the text does not occur, and otherwise the first
  position at which it stands.
\<close>

lemma str_find_from_none:
  "(str_find_from s sub i = - 1) = (\<forall>k\<le>length s. \<not> prefix sub (drop k s))"
proof (induction s arbitrary: i)
  case Nil
  show ?case by simp
next
  case (Cons c cs)
  show ?case
  proof (cases "prefix sub (c # cs)")
    case True
    then have "\<exists>k\<le>length (c # cs). prefix sub (drop k (c # cs))"
      by (intro exI[of _ 0]) simp
    with True show ?thesis by auto
  next
    case False
    have "(\<forall>k\<le>length (c # cs). \<not> prefix sub (drop k (c # cs)))
            = (\<forall>k\<le>length cs. \<not> prefix sub (drop k cs))"
    proof
      assume a: "\<forall>k\<le>length (c # cs). \<not> prefix sub (drop k (c # cs))"
      show "\<forall>k\<le>length cs. \<not> prefix sub (drop k cs)"
      proof (intro allI impI)
        fix k assume "k \<le> length cs"
        with a have "\<not> prefix sub (drop (Suc k) (c # cs))"
          by (metis Suc_le_mono length_Cons)
        then show "\<not> prefix sub (drop k cs)" by simp
      qed
    next
      assume a: "\<forall>k\<le>length cs. \<not> prefix sub (drop k cs)"
      show "\<forall>k\<le>length (c # cs). \<not> prefix sub (drop k (c # cs))"
      proof (intro allI impI)
        fix k assume k: "k \<le> length (c # cs)"
        show "\<not> prefix sub (drop k (c # cs))"
        proof (cases k)
          case 0
          with False show ?thesis by simp
        next
          case (Suc j)
          with k a show ?thesis by simp
        qed
      qed
    qed
    with False Cons.IH[of "Suc i"] show ?thesis by simp
  qed
qed

lemma str_find_from_some:
  "str_find_from s sub i \<noteq> - 1 \<Longrightarrow>
   \<exists>k\<le>length s. str_find_from s sub i = int (i + k) \<and> prefix sub (drop k s) \<and>
     (\<forall>j<k. \<not> prefix sub (drop j s))"
proof (induction s arbitrary: i)
  case Nil
  then show ?case by (auto split: if_splits)
next
  case (Cons c cs)
  show ?case
  proof (cases "prefix sub (c # cs)")
    case True
    then show ?thesis by (intro exI[of _ 0]) simp
  next
    case False
    with Cons.prems have "str_find_from cs sub (Suc i) \<noteq> - 1" by simp
    from Cons.IH[OF this] obtain k where k: "k \<le> length cs"
      "str_find_from cs sub (Suc i) = int (Suc i + k)" "prefix sub (drop k cs)"
      "\<forall>j<k. \<not> prefix sub (drop j cs)" by blast
    have "\<forall>j<Suc k. \<not> prefix sub (drop j (c # cs))"
    proof (intro allI impI)
      fix j assume "j < Suc k"
      then show "\<not> prefix sub (drop j (c # cs))"
        using False k(4) by (cases j) auto
    qed
    with k False show ?thesis
      by (intro exI[of _ "Suc k"]) simp
  qed
qed

lemma occurs_iff:
  "(\<exists>pre post. s = pre @ sub @ post) = (\<exists>k\<le>length s. prefix sub (drop k s))"
proof
  assume "\<exists>pre post. s = pre @ sub @ post"
  then obtain pre post where "s = pre @ sub @ post" by blast
  then have "length pre \<le> length s \<and> prefix sub (drop (length pre) s)" by simp
  then show "\<exists>k\<le>length s. prefix sub (drop k s)" by blast
next
  assume "\<exists>k\<le>length s. prefix sub (drop k s)"
  then obtain k where "k \<le> length s" "prefix sub (drop k s)" by blast
  then obtain post where "drop k s = sub @ post" by (auto simp: prefix_def)
  then have "s = take k s @ sub @ post" by (metis append_take_drop_id)
  then show "\<exists>pre post. s = pre @ sub @ post" by blast
qed

lemma str_find_absent: "(str_find s sub = - 1) = (\<nexists>pre post. s = pre @ sub @ post)"
  unfolding str_find_def str_find_from_none occurs_iff by blast

lemma str_find_found:
  assumes "str_find s sub = int k"
  shows "k \<le> length s \<and> prefix sub (drop k s) \<and> (\<forall>j<k. \<not> prefix sub (drop j s))"
proof -
  from assms have "str_find_from s sub 0 \<noteq> - 1" by (simp add: str_find_def)
  from str_find_from_some[OF this] assms show ?thesis by (auto simp: str_find_def)
qed

lemma slice_from_nat: "slice_from s (int k) = drop k s"
  by (simp add: slice_from_def slice_index_def min_def)

lemma slice_upto_nat: "slice_upto s (int k) = take k s"
  by (simp add: slice_upto_def slice_index_def min_def)

lemma slice_nat: "slice s (int i) (int j) = drop i (take j s)"
  by (simp add: slice_def slice_index_def min_def)

section \<open>The file system calls\<close>

text \<open>
  A backup always returns. A write that follows the backup of the same path finds the
  path free, so it creates a file and overwrites none; and the change of mode that
  follows such a write reaches the file just created.
\<close>

lemma backup_trace: "trace (snd (backup fn st)) = trace st @ [EvBackup fn]"
  by (simp add: backup_def Let_def)

lemma backup_cwd: "cwd (snd (backup fn st)) = cwd st"
  by (simp add: backup_def Let_def)

lemma walk_norm: "walk f p cs = Inr q \<Longrightarrow> q = norm_parts p cs"
  by (induction cs arbitrary: p) (auto split: option.splits node.splits if_splits)

lemma kresolve_resolve: "kresolve f d p = Inr q \<Longrightarrow> q = resolve d p"
  unfolding kresolve_def resolve_def by (rule walk_norm)

lemma lookup_upd: "q \<noteq> [] \<Longrightarrow> lookup (f(q \<mapsto> n)) p = (if p = q then Some n else lookup f p)"
  by (simp add: lookup_def)

lemma walk_upd:
  assumes "q \<noteq> []" and "lookup f q \<noteq> Some Dir"
  shows "walk f p cs = Inr r \<Longrightarrow> walk (f(q \<mapsto> n)) p cs = Inr r"
proof (induction cs arbitrary: p)
  case Nil
  then show ?case by simp
next
  case (Cons c cs)
  show ?case
  proof (cases "c = [] \<or> c = ''.'' \<or> c = ''..''")
    case True
    with Cons.prems have d: "lookup f p = Some Dir"
      by (auto split: option.splits node.splits)
    with assms(2) have "p \<noteq> q" by auto
    with d have d': "lookup (f(q \<mapsto> n)) p = Some Dir"
      by (simp add: lookup_upd[OF assms(1)])
    from True Cons.prems d have "walk f (if c = ''..'' then butlast p else p) cs = Inr r"
      by auto
    from Cons.IH[OF this] True d' show ?thesis
      by (simp only: walk.simps if_True option.case node.case)
  next
    case False
    with Cons.prems have "walk f (p @ [c]) cs = Inr r" by simp
    from Cons.IH[OF this] False show ?thesis by simp
  qed
qed

lemma kresolve_upd:
  "q \<noteq> [] \<Longrightarrow> lookup f q \<noteq> Some Dir \<Longrightarrow> kresolve f d p = Inr r \<Longrightarrow>
   kresolve (f(q \<mapsto> n)) d p = Inr r"
  unfolding kresolve_def by (rule walk_upd)

lemma follow_not_link: "follow f n p = Inr q \<Longrightarrow> lookup f q \<noteq> Some (Link t)"
  by (induction n arbitrary: p) (auto split: option.splits node.splits sum.splits if_splits)

lemma follow_stop: "(\<And>t. lookup f p \<noteq> Some (Link t)) \<Longrightarrow> follow f n p = Inr p"
  by (cases n) (auto split: option.splits node.splits)

lemma follow_upd:
  assumes "follow f n p = Inr q" and "q \<noteq> []" and "lookup f q \<noteq> Some Dir"
  shows "follow (f(q \<mapsto> File c m)) n p = Inr q"
  using assms(1)
proof (induction n arbitrary: p)
  case 0
  then have "p = q" by (auto split: option.splits node.splits)
  then show ?case using assms(2) by (simp add: lookup_def)
next
  case (Suc n)
  show ?case
  proof (cases "\<exists>t. lookup f p = Some (Link t)")
    case True
    then obtain t where t: "lookup f p = Some (Link t)" by blast
    with Suc.prems obtain p' where t0: "t \<noteq> []" and k: "kresolve f (butlast p) t = Inr p'"
      and f: "follow f n p' = Inr q"
      by (auto split: sum.splits if_splits)
    from follow_not_link[OF Suc.prems] t have "p \<noteq> q" by auto
    with t have l: "lookup (f(q \<mapsto> File c m)) p = Some (Link t)"
      by (simp add: lookup_upd[OF assms(2)])
    have k': "kresolve (f(q \<mapsto> File c m)) (butlast p) t = Inr p'"
      by (rule kresolve_upd[OF assms(2,3) k])
    have "follow (f(q \<mapsto> File c m)) (Suc n) p = follow (f(q \<mapsto> File c m)) n p'"
      using t0 by (simp only: follow.simps l k' option.case node.case sum.case if_False)
    also have "\<dots> = Inr q"
      by (rule Suc.IH[OF f])
    finally show ?thesis .
  next
    case False
    with Suc.prems have "p = q" by (auto split: option.splits node.splits)
    then show ?thesis using assms(2) by (simp add: lookup_def)
  qed
qed

lemma open_write_cases:
  "open_write E p c st = (Inl e, st') \<Longrightarrow> st' = st"
  by (auto simp: open_write_def split: sum.splits option.splits node.splits if_splits)

lemma open_write_ok:
  assumes "open_write E p c st = (Inr u, st')"
  obtains q m where "realpath p st = Inr q" "q \<noteq> []"
    "lookup (fs st) q = None \<or> (\<exists>old. lookup (fs st) q = Some (File old m))"
    "st' = st\<lparr>fs := (fs st)(q \<mapsto> File c m), trace := trace st @ [EvWrite p c]\<rparr>"
proof -
  from assms obtain q where q: "realpath p st = Inr q"
    by (auto simp: open_write_def split: sum.splits)
  have ne: "q \<noteq> []"
    using assms q by (auto simp: open_write_def lookup_def split: option.splits node.splits if_splits)
  show ?thesis
  proof (cases "lookup (fs st) q")
    case None
    with assms q have "st' = st\<lparr>fs := (fs st)(q \<mapsto> File c (438 - (438 AND umask E))), trace := trace st @ [EvWrite p c]\<rparr>"
      by (auto simp: open_write_def split: if_splits)
    with q ne None show ?thesis using that by blast
  next
    case (Some n)
    with assms q obtain old m where n: "n = File old m"
      by (cases n) (auto simp: open_write_def)
    with assms q Some have "st' = st\<lparr>fs := (fs st)(q \<mapsto> File c m), trace := trace st @ [EvWrite p c]\<rparr>"
      by (auto simp: open_write_def)
    with q ne Some n show ?thesis using that by blast
  qed
qed

lemma realpath_cases:
  assumes "realpath p st = Inr q"
  obtains q0 where "p \<noteq> []" "kresolve (fs st) (cwd st) p = Inr q0" "q0 = resolve (cwd st) p"
    "follow (fs st) 40 q0 = Inr q"
proof -
  from assms have p: "p \<noteq> []" by (auto simp: realpath_def split: if_splits)
  with assms obtain q0 where k: "kresolve (fs st) (cwd st) p = Inr q0"
    and f: "follow (fs st) 40 q0 = Inr q"
    by (auto simp: realpath_def split: sum.splits)
  from kresolve_resolve[OF k] p k f show ?thesis using that by blast
qed

lemma exists_resolve:
  "os_path_exists t st \<Longrightarrow> kresolve (fs st) (cwd st) t = Inr (resolve (cwd st) t)"
proof -
  assume "os_path_exists t st"
  then obtain q where "realpath t st = Inr q"
    by (auto simp: os_path_exists_def split: sum.splits)
  from realpath_cases[OF this] show ?thesis by metis
qed

lemma realpath_after_backup:
  assumes "realpath t (snd (backup t st)) = Inr q'"
  shows "lookup (fs (snd (backup t st))) q' = None \<or> lookup (fs (snd (backup t st))) q' = Some Dir"
proof (cases "os_path_exists t st")
  case True
  let ?q = "resolve (cwd st) t"
  let ?f = "\<lambda>p. if prefix ?q p then None else fs st p"
  from True have fs1: "fs (snd (backup t st)) = ?f" and c1: "cwd (snd (backup t st)) = cwd st"
    by (simp_all add: backup_def Let_def)
  have nl: "\<And>x. lookup ?f ?q \<noteq> Some (Link x)"
    by (simp add: lookup_def)
  from realpath_cases[OF assms] have "follow ?f 40 ?q = Inr q'"
    by (simp add: fs1 c1)
  with follow_stop[of ?f ?q 40, OF nl] have "q' = ?q" by simp
  then show ?thesis
    by (simp add: fs1 lookup_def)
next
  case False
  then have fs1: "fs (snd (backup t st)) = fs st" and c1: "cwd (snd (backup t st)) = cwd st"
    by (simp_all add: backup_def Let_def)
  from assms have "realpath t st = Inr q'"
    by (auto simp: realpath_def fs1 c1 split: if_splits sum.splits)
  with False show ?thesis
    by (simp add: os_path_exists_def fs1)
qed

lemma backup_fs_cases:
  "fs (snd (backup t st)) p = fs st p
   \<or> (os_path_exists t st \<and> prefix (resolve (cwd st) t) p \<and> fs (snd (backup t st)) p = None
      \<and> backups (snd (backup t st)) = backups st @
            [(resolve (cwd st) t, \<lambda>x. fs st (resolve (cwd st) t @ x))])"
  by (simp add: backup_def Let_def)

lemma backup_result: "backup t st = (Inr (), snd (backup t st))"
  by (simp add: backup_def Let_def)

lemma write_after_backup:
  assumes "open_write E t c (snd (backup t st)) = (Inr u, st2)"
  obtains q m where "realpath t (snd (backup t st)) = Inr q" "q \<noteq> []"
    "fs (snd (backup t st)) q = None"
    "st2 = (snd (backup t st))\<lparr>fs := (fs (snd (backup t st)))(q \<mapsto> File c m),
                               trace := trace st @ [EvBackup t, EvWrite t c]\<rparr>"
proof -
  let ?s1 = "snd (backup t st)"
  from open_write_ok[OF assms] obtain q m where q: "realpath t ?s1 = Inr q" "q \<noteq> []"
    "lookup (fs ?s1) q = None \<or> (\<exists>old. lookup (fs ?s1) q = Some (File old m))"
    "st2 = ?s1\<lparr>fs := (fs ?s1)(q \<mapsto> File c m), trace := trace ?s1 @ [EvWrite t c]\<rparr>"
    by blast
  from realpath_after_backup[OF q(1)] q(3) have "lookup (fs ?s1) q = None" by auto
  with q(2) have "fs ?s1 q = None" by (simp add: lookup_def)
  moreover from q(4) have "st2 = ?s1\<lparr>fs := (fs ?s1)(q \<mapsto> File c m),
                               trace := trace st @ [EvBackup t, EvWrite t c]\<rparr>"
    by (simp add: backup_trace)
  ultimately show ?thesis using q(1,2) that by blast
qed

lemma backup_then_write:
  "backup_before_write (and_then (backup t st) (\<lambda>u st1. open_write E t c st1)) st t [EvWrite t c]"
proof -
  let ?s1 = "snd (backup t st)"
  let ?r = "and_then (backup t st) (\<lambda>u st1. open_write E t c st1)"
  have r: "?r = open_write E t c ?s1"
    by (subst backup_result) (simp add: and_then_def)
  obtain res st2 where o: "open_write E t c ?s1 = (res, st2)"
    by (cases "open_write E t c ?s1")
  show ?thesis
  proof (cases res)
    case (Inl e)
    with o open_write_cases[of E t c ?s1 e st2] have s2: "st2 = ?s1" by simp
    show ?thesis
      unfolding backup_before_write_def r o
      using Inl backup_fs_cases[of t st] by (auto simp: s2 backup_trace)
  next
    case (Inr u)
    from write_after_backup[OF o[unfolded Inr]] obtain q m where q:
      "q \<noteq> []" "fs ?s1 q = None"
      "st2 = ?s1\<lparr>fs := (fs ?s1)(q \<mapsto> File c m), trace := trace st @ [EvBackup t, EvWrite t c]\<rparr>"
      by blast
    have tr: "trace st2 = trace st @ [EvBackup t, EvWrite t c]" and bk: "backups st2 = backups ?s1"
      by (simp_all add: q(3))
    have f: "\<And>p. fs st2 p = (if p = q then Some (File c m) else fs ?s1 p)"
      by (simp add: q(3))
    have "\<forall>p. fs st2 p = fs st p \<or> fs st p = None
             \<or> (os_path_exists t st \<and> prefix (resolve (cwd st) t) p
                \<and> backups st2 = backups st @
                     [(resolve (cwd st) t, \<lambda>x. fs st (resolve (cwd st) t @ x))])"
    proof
      fix p
      show "fs st2 p = fs st p \<or> fs st p = None
             \<or> (os_path_exists t st \<and> prefix (resolve (cwd st) t) p
                \<and> backups st2 = backups st @
                     [(resolve (cwd st) t, \<lambda>x. fs st (resolve (cwd st) t @ x))])"
        using backup_fs_cases[of t st p] backup_fs_cases[of t st q] q(2)
        by (cases "p = q") (auto simp: f bk)
    qed
    then show ?thesis
      unfolding backup_before_write_def r o using Inr tr by simp
  qed
qed

lemma chmod_after_write:
  assumes "open_write E t c (snd (backup t st)) = (Inr u, st2)"
  shows "\<exists>q m. fs (snd (backup t st)) q = None \<and>
           chmod_plus_x t st2 =
             (Inr (), (snd (backup t st))\<lparr>fs := (fs (snd (backup t st)))(q \<mapsto> File c (m OR 73)),
                        trace := trace st @ [EvBackup t, EvWrite t c, EvChmod t]\<rparr>)"
proof -
  let ?s1 = "snd (backup t st)"
  from write_after_backup[OF assms] obtain q m where q:
    "realpath t ?s1 = Inr q" "q \<noteq> []" "fs ?s1 q = None"
    "st2 = ?s1\<lparr>fs := (fs ?s1)(q \<mapsto> File c m), trace := trace st @ [EvBackup t, EvWrite t c]\<rparr>"
    by blast
  from q(2,3) have nd: "lookup (fs ?s1) q \<noteq> Some Dir"
    by (simp add: lookup_def)
  from realpath_cases[OF q(1)] obtain q0 where t: "t \<noteq> []"
    and k: "kresolve (fs ?s1) (cwd ?s1) t = Inr q0" and fo: "follow (fs ?s1) 40 q0 = Inr q"
    by blast
  from kresolve_upd[OF q(2) nd k, of "File c m"] follow_upd[OF fo q(2) nd, of c m] t
  have rp: "realpath t st2 = Inr q"
    by (simp add: realpath_def q(4))
  have lk: "lookup (fs st2) q = Some (File c m)"
    using q(2) by (simp add: q(4) lookup_def)
  have "chmod_plus_x t st2 =
          (Inr (), st2\<lparr>fs := (fs st2)(q \<mapsto> File c (m OR 73)), trace := trace st2 @ [EvChmod t]\<rparr>)"
    by (simp add: chmod_plus_x_def rp lk)
  also have "\<dots> = (Inr (), ?s1\<lparr>fs := (fs ?s1)(q \<mapsto> File c (m OR 73)),
                        trace := trace st @ [EvBackup t, EvWrite t c, EvChmod t]\<rparr>)"
    by (simp add: q(4))
  finally show ?thesis using q(3) by blast
qed

lemma backup_then_write_chmod:
  "backup_before_write
     (and_then (backup t st) (\<lambda>u st1.
        and_then (open_write E t c st1) (\<lambda>u st2. chmod_plus_x t st2)))
     st t [EvWrite t c, EvChmod t]"
proof -
  let ?s1 = "snd (backup t st)"
  let ?r = "and_then (backup t st) (\<lambda>u st1.
        and_then (open_write E t c st1) (\<lambda>u st2. chmod_plus_x t st2))"
  have r: "?r = and_then (open_write E t c ?s1) (\<lambda>u st2. chmod_plus_x t st2)"
    by (subst backup_result) (simp add: and_then_def)
  obtain res st2 where o: "open_write E t c ?s1 = (res, st2)"
    by (cases "open_write E t c ?s1")
  show ?thesis
  proof (cases res)
    case (Inl e)
    with o open_write_cases[of E t c ?s1 e st2] have s2: "st2 = ?s1" by simp
    have r': "?r = (Inl e, ?s1)"
      unfolding r o by (simp add: and_then_def Inl s2)
    show ?thesis
      unfolding backup_before_write_def r'
      using backup_fs_cases[of t st] by (auto simp: backup_trace)
  next
    case (Inr u)
    from chmod_after_write[OF o[unfolded Inr]] obtain q m where q:
      "fs ?s1 q = None"
      "chmod_plus_x t st2 =
             (Inr (), ?s1\<lparr>fs := (fs ?s1)(q \<mapsto> File c (m OR 73)),
                        trace := trace st @ [EvBackup t, EvWrite t c, EvChmod t]\<rparr>)"
      by blast
    let ?s3 = "?s1\<lparr>fs := (fs ?s1)(q \<mapsto> File c (m OR 73)),
                        trace := trace st @ [EvBackup t, EvWrite t c, EvChmod t]\<rparr>"
    have r': "?r = (Inr (), ?s3)"
      unfolding r o by (simp add: and_then_def Inr q(2))
    have tr: "trace ?s3 = trace st @ [EvBackup t, EvWrite t c, EvChmod t]" and bk: "backups ?s3 = backups ?s1"
      by simp_all
    have f: "\<And>p. fs ?s3 p = (if p = q then Some (File c (m OR 73)) else fs ?s1 p)"
      by simp
    have "\<forall>p. fs ?s3 p = fs st p \<or> fs st p = None
             \<or> (os_path_exists t st \<and> prefix (resolve (cwd st) t) p
                \<and> backups ?s3 = backups st @
                     [(resolve (cwd st) t, \<lambda>x. fs st (resolve (cwd st) t @ x))])"
    proof
      fix p
      show "fs ?s3 p = fs st p \<or> fs st p = None
             \<or> (os_path_exists t st \<and> prefix (resolve (cwd st) t) p
                \<and> backups ?s3 = backups st @
                     [(resolve (cwd st) t, \<lambda>x. fs st (resolve (cwd st) t @ x))])"
        using backup_fs_cases[of t st p] backup_fs_cases[of t st q] q(1)
        by (cases "p = q") (auto simp only: f bk if_True if_False)
    qed
    then show ?thesis
      unfolding backup_before_write_def r' using tr by simp
  qed
qed

lemma follow_numeral:
  "follow f (numeral k) q =
     (case lookup f q of
        Some (Link t) \<Rightarrow>
          (if t = [] then Inl FileNotFoundError
           else case kresolve f (butlast q) t of
                  Inl e \<Rightarrow> Inl e
                | Inr q' \<Rightarrow> follow f (pred_numeral k) q')
      | _ \<Rightarrow> Inr q)"
  by (simp add: numeral_eq_Suc)

text \<open>
  The cells of a notebook always start with the seeded pair: the heading made of the
  file name, and as code the text in front of the first heading of the rendered text.
\<close>

lemma re_split_heading_nonempty: "re_split_heading acc s \<noteq> []"
  by (induction acc s rule: re_split_heading.induct) (auto split: option.splits)

lemma step2_Cons: "step2 (x # xs) = x # step2 (drop 1 xs)"
  by (cases xs) auto

lemma ipython_cells_seeded:
  "take 2 (ipython_cells fn rendered) =
     [Markdown (''## '' @ strip fn), Code (strip (hd (re_split rendered)))]"
proof -
  obtain x ys where xs: "re_split rendered = x # ys"
    using re_split_heading_nonempty[of "[]" rendered]
    by (cases "re_split rendered") (auto simp: re_split_def)
  have a: "step2 (butlast (fn # x # ys)) = fn # step2 (drop 1 (butlast (x # ys)))"
    by (simp add: step2_Cons)
  have b: "step2 (drop 1 (fn # x # ys)) = x # step2 (drop 1 ys)"
    by (simp add: step2_Cons)
  show ?thesis
    unfolding ipython_cells_def Let_def xs a b by simp
qed

lemma example_cells:
  "ipython_cells ''cluster.ipynb'' example_rendered =
     [Markdown ''## cluster.ipynb'', Code [], Markdown ''## Setup'', Code ''import os'',
      Markdown ''## Run'', Code ''print(1)'']"
  by (simp add: ipython_cells_def re_split_def match_heading_def strip_def isspace_def
        example_rendered_def)

section \<open>Runs: events, directories and the working directory\<close>

subsection \<open>What a template adds to the trace\<close>

text \<open>
  Loading a template changes the \<open>meta\<close> dictionary only. A template made without the
  flag \<open>ipynb\<close> adds, when it is rendered, the backup of its base name and the write of
  a text (and the change of mode, for a shell script); when it fails it adds nothing, or
  the backup only.
\<close>

lemma get_source_frame:
  "get_source E fn st = (r, st') \<Longrightarrow> st' = st\<lparr>meta := meta st'\<rparr>"
  by (auto simp: get_source_def Let_def split: option.splits sum.splits if_splits)

lemma Template_init_frame:
  assumes "Template_init E fn ipynb st = (r, st')"
  shows "st' = st\<lparr>meta := meta st'\<rparr>"
proof -
  obtain r1 s1 where g: "get_source E fn st = (r1, s1)"
    by (cases "get_source E fn st")
  from assms g have "st' = s1"
    by (auto simp: Template_init_def get_template_def and_then_def
        split: sum.splits option.splits prod.splits)
  with get_source_frame[OF g] show ?thesis by simp
qed

lemma Template_init_write_func:
  "Template_init E fn ipynb st = (Inr t, st') \<Longrightarrow>
   write_func t = write_funcs ipynb (last (split_on CHR ''.'' fn)) \<and> template_fn t = fn"
  by (auto simp: Template_init_def get_template_def and_then_def
      split: sum.splits option.splits prod.splits)

lemma backup_before_write_trace:
  "backup_before_write r st t writes \<Longrightarrow>
   trace (snd r) = trace st @ EvBackup t # (case fst r of Inl e \<Rightarrow> [] | Inr u \<Rightarrow> writes)"
  by (simp add: backup_before_write_def)

lemma call_write_func_trace:
  assumes "w \<noteq> WriteIpython"
  shows "trace (snd (call_write_func E w bn rd st)) =
           trace st @ EvBackup bn #
             (case fst (call_write_func E w bn rd st) of
                Inl e \<Rightarrow> []
              | Inr u \<Rightarrow> EvWrite bn (Text rd) # (if w = WriteShell then [EvChmod bn] else []))"
proof (cases w)
  case WriteGeneric
  have "backup_before_write (write_generic E bn rd st) st bn [EvWrite bn (Text rd)]"
    unfolding write_generic_def by (rule backup_then_write)
  from backup_before_write_trace[OF this] WriteGeneric show ?thesis
    by (simp add: call_write_func_def)
next
  case WritePython
  have "backup_before_write (write_python E bn rd st) st bn [EvWrite bn (Text rd)]"
    unfolding write_python_def by (rule backup_then_write)
  from backup_before_write_trace[OF this] WritePython show ?thesis
    by (simp add: call_write_func_def)
next
  case WriteShell
  have "backup_before_write (write_shell E bn rd st) st bn [EvWrite bn (Text rd), EvChmod bn]"
    unfolding write_shell_def by (rule backup_then_write_chmod)
  from backup_before_write_trace[OF this] WriteShell show ?thesis
    by (simp add: call_write_func_def)
next
  case WriteIpython
  with assms show ?thesis by simp
qed

lemma Template_render_trace:
  assumes "write_func t \<noteq> WriteIpython" and "Template_render E t st = (r, st')"
  shows "\<exists>rd. trace st' = trace st @
           (case r of
              Inl e \<Rightarrow> []
            | Inr u \<Rightarrow> [EvBackup (basename (template_fn t)), EvWrite (basename (template_fn t)) (Text rd)]
                        @ (if write_func t = WriteShell then [EvChmod (basename (template_fn t))] else []))
         \<or> (\<exists>e. r = Inl e \<and> trace st' = trace st @ [EvBackup (basename (template_fn t))])"
proof -
  let ?s2 = "st\<lparr>clock := Suc (Suc (clock st))\<rparr>"
  let ?h = "fst (get_header E st)"
  let ?d = "isoformat E (Suc (clock st))"
  let ?bn = "basename (template_fn t)"
  show ?thesis
  proof (cases "jinja_render E (template_source t) ?h ?d")
    case (Inl e)
    with assms(2) have "r = Inl e" "st' = ?s2"
      by (auto simp: Template_render_def get_header_def Let_def)
    then show ?thesis by simp
  next
    case (Inr rd)
    with assms(2) have c: "call_write_func E (write_func t) ?bn rd ?s2 = (r, st')"
      by (auto simp: Template_render_def get_header_def Let_def)
    from call_write_func_trace[OF assms(1), of E ?bn rd ?s2] c
    show ?thesis
      by (cases r) auto
  qed
qed

subsection \<open>The loops over files, dependencies and subdirectories\<close>

lemma notebook_writes_append [simp]:
  "notebook_writes (a @ b) = notebook_writes a @ notebook_writes b"
  by (simp add: notebook_writes_def)

lemma created_append [simp]: "created (a @ b) = created a @ created b"
  by (induction a rule: created.induct) simp_all

lemma notebook_writes_simps [simp]:
  "notebook_writes [] = []"
  "notebook_writes (EvWrite p (Text s) # evs) = notebook_writes evs"
  "notebook_writes (EvMkdir p # evs) = notebook_writes evs"
  "notebook_writes (EvBackup p # evs) = notebook_writes evs"
  "notebook_writes (EvChmod p # evs) = notebook_writes evs"
  "notebook_writes (EvSymlink s p # evs) = notebook_writes evs"
  "notebook_writes (EvChdir p # evs) = notebook_writes evs"
  by (simp_all add: notebook_writes_def)

lemma create_trace:
  "create p n ev st = (r, st') \<Longrightarrow>
   (case r of Inl e \<Rightarrow> st' = st | Inr u \<Rightarrow> trace st' = trace st @ [ev] \<and> cwd st' = cwd st)"
  by (auto simp: create_def split: sum.splits if_splits)

lemma os_chdir_trace:
  "os_chdir p st = (r, st') \<Longrightarrow>
   (case r of Inl e \<Rightarrow> st' = st | Inr u \<Rightarrow> trace st' = trace st @ [EvChdir p])"
  by (auto simp: os_chdir_def split: sum.splits option.splits node.splits)


lemma render_files_loop_created:
  "render_files_loop E fns deps st = (Inr ds, st') \<Longrightarrow>
   created (trace st') = created (trace st) @ map (\<lambda>fn. NewFile (basename fn)) fns"
proof (induction fns arbitrary: deps st)
  case Nil
  then show ?case by simp
next
  case (Cons fn fns)
  obtain r1 s1 where i: "Template_init E fn False st = (r1, s1)"
    by (cases "Template_init E fn False st")
  from Template_init_frame[OF i] have t1: "trace s1 = trace st"
    by (metis state.select_convs(6) state.surjective state.update_convs(4))
  from Cons.prems i obtain t where Inr: "r1 = Inr t"
    by (cases r1) auto
  from Template_init_write_func[OF i[unfolded Inr]] have w: "write_func t \<noteq> WriteIpython"
    and f: "template_fn t = fn"
    by (simp_all add: write_funcs_def)
  from Cons.prems i Inr obtain deps' where d: "update_depends deps (template_meta t) = Inr deps'"
    by (cases "update_depends deps (template_meta t)") auto
  obtain r2 s2 where rn: "Template_render E t s1 = (r2, s2)"
    by (cases "Template_render E t s1")
  from Cons.prems i Inr d rn obtain u where r2: "r2 = Inr u"
    by (cases r2) auto
  from Template_render_trace[OF w rn] r2 f
  have t2: "created (trace s2) = created (trace s1) @ [NewFile (basename fn)]"
    by auto
  from Cons.prems i Inr d rn r2 have "render_files_loop E fns deps' s2 = (Inr ds, st')" by simp
  from Cons.IH[OF this] t1 t2 show ?case by simp
qed

lemma link_depends_trace:
  "link_depends deps st = (r, st') \<Longrightarrow>
   notebook_writes (trace st') = notebook_writes (trace st)
   \<and> created (trace st') = created (trace st)"
proof (induction deps arbitrary: st)
  case Nil
  then show ?case by simp
next
  case (Cons dep deps)
  show ?case
  proof (cases dep)
    case (YStr d)
    show ?thesis
    proof (cases "os_path_exists (basename d) st")
      case True
      with Cons.prems YStr have "link_depends deps st = (r, st')" by simp
      from Cons.IH[OF this] show ?thesis .
    next
      case False
      obtain r1 s1 where s: "os_symlink (''../'' @ d) (basename d) st = (r1, s1)"
        by (cases "os_symlink (''../'' @ d) (basename d) st")
      from create_trace[OF s[unfolded os_symlink_def]]
      have t1: "notebook_writes (trace s1) = notebook_writes (trace st)
                \<and> created (trace s1) = created (trace st)"
        by (cases r1) auto
      show ?thesis
      proof (cases r1)
        case (Inl e)
        with Cons.prems YStr False s have "st' = s1" by simp
        with t1 show ?thesis by simp
      next
        case (Inr u)
        with Cons.prems YStr False s have "link_depends deps s1 = (r, st')" by simp
        from Cons.IH[OF this] t1 show ?thesis by simp
      qed
    qed
  qed (use Cons.prems in auto)
qed

subsection \<open>No notebook is written, and what is created follows the declaration\<close>



lemma render_subdirs_Cons_ok:
  assumes "render_subdirs E (d # ds) st = (Inr u, st')"
  obtains s2 s3 s4 s5 where
    "os_mkdir (name d) (snd (backup (name d) st)) = (Inr (), s2)"
    "os_chdir (name d) s2 = (Inr (), s3)"
    "render E d s3 = (Inr (), s4)"
    "os_chdir (os_path_abspath ''.'' s2) s4 = (Inr (), s5)"
    "render_subdirs E ds s5 = (Inr u, st')"
proof -
  let ?s1 = "snd (backup (name d) st)"
  obtain r2 s2 where m: "os_mkdir (name d) ?s1 = (r2, s2)"
    by (cases "os_mkdir (name d) ?s1")
  obtain r3 s3 where c: "os_chdir (name d) s2 = (r3, s3)"
    by (cases "os_chdir (name d) s2")
  obtain r4 s4 where rd: "render E d s3 = (r4, s4)"
    by (cases "render E d s3")
  obtain r5 s5 where b: "os_chdir (os_path_abspath ''.'' s2) s4 = (r5, s5)"
    by (cases "os_chdir (os_path_abspath ''.'' s2) s4")
  from assms have a: "(case os_mkdir (name d) ?s1 of
        (Inl e, st2) \<Rightarrow> (Inl e, st2)
      | (Inr _, st2) \<Rightarrow>
               (let pwd = os_path_abspath ''.'' st2 in
                case os_chdir (name d) st2 of
                  (Inl e, st3) \<Rightarrow> (Inl e, st3)
                | (Inr _, st3) \<Rightarrow>
                    (case render E d st3 of
                       (Inl e, st4) \<Rightarrow> (Inl e, st4)
                     | (Inr _, st4) \<Rightarrow>
                         (case os_chdir pwd st4 of
                            (Inl e, st5) \<Rightarrow> (Inl e, st5)
                          | (Inr _, st5) \<Rightarrow> render_subdirs E ds st5)))) = (Inr u, st')"
    by (subst (asm) render_subdirs.simps, subst (asm) backup_result) simp
  from a m have r2: "r2 = Inr ()" by (cases r2) auto
  from a m r2 c have r3: "r3 = Inr ()" by (cases r3) (auto simp: Let_def)
  from a m r2 c r3 rd have r4: "r4 = Inr ()" by (cases r4) (auto simp: Let_def)
  from a m r2 c r3 rd r4 b have r5: "r5 = Inr ()" by (cases r5) (auto simp: Let_def)
  from a m r2 c r3 rd r4 b r5 have "render_subdirs E ds s5 = (Inr u, st')"
    by (simp add: Let_def)
  with m r2 c r3 rd r4 b r5 show ?thesis using that by blast
qed

lemma render_ok:
  assumes "render E (TemplateDir n fns sds) st = (Inr u, st')"
  obtains deps s1 s2 where
    "render_files_loop E fns [] st = (Inr deps, s1)"
    "link_depends (set_iter E deps) s1 = (Inr (), s2)"
    "render_subdirs E sds s2 = (Inr u, st')"
proof -
  obtain r1 s1 where f: "render_files_loop E fns [] st = (r1, s1)"
    by (cases "render_files_loop E fns [] st")
  with assms obtain deps where r1: "r1 = Inr deps"
    by (cases r1) (auto simp: render_files_def)
  obtain r2 s2 where l: "link_depends (set_iter E deps) s1 = (r2, s2)"
    by (cases "link_depends (set_iter E deps) s1")
  with assms f r1 have r2: "r2 = Inr ()"
    by (cases r2) (auto simp: render_files_def)
  with assms f r1 l have "render_subdirs E sds s2 = (Inr u, st')"
    by (simp add: render_files_def)
  with f r1 l r2 show ?thesis using that by blast
qed

lemma failing_child_stops_parent:
  assumes "os_mkdir (name d) (snd (backup (name d) st)) = (Inr (), s2)"
    and "os_chdir (name d) s2 = (Inr (), s3)"
    and "render E d s3 = (Inl e, s4)"
  shows "render_subdirs E (d # rest) st = (Inl e, s4)"
  by (subst render_subdirs.simps, subst backup_result) (simp add: assms Let_def)

lemma render_subdirs_created:
  assumes "\<And>d s u s'. d \<in> set sds \<Longrightarrow> render E d s = (Inr u, s') \<Longrightarrow>
             created (trace s') = created (trace s) @ declared d"
  shows "render_subdirs E sds st = (Inr u, st') \<Longrightarrow>
         created (trace st') = created (trace st) @ declared_subdirs sds"
  using assms
proof (induction sds arbitrary: st)
  case Nil
  then show ?case by simp
next
  case (Cons d ds)
  from render_subdirs_Cons_ok[OF Cons.prems(1)] obtain s2 s3 s4 s5 where s:
    "os_mkdir (name d) (snd (backup (name d) st)) = (Inr (), s2)"
    "os_chdir (name d) s2 = (Inr (), s3)"
    "render E d s3 = (Inr (), s4)"
    "os_chdir (os_path_abspath ''.'' s2) s4 = (Inr (), s5)"
    "render_subdirs E ds s5 = (Inr u, st')"
    by blast
  from create_trace[OF s(1)[unfolded os_mkdir_def]]
  have t2: "created (trace s2) = created (trace st) @ [NewDir (name d)]"
    by (simp add: backup_trace)
  from os_chdir_trace[OF s(2)] have t3: "created (trace s3) = created (trace s2)"
    by simp
  from Cons.prems(2)[OF _ s(3)] have t4: "created (trace s4) = created (trace s3) @ declared d"
    by simp
  from os_chdir_trace[OF s(4)] have t5: "created (trace s5) = created (trace s4)"
    by simp
  have "created (trace st') = created (trace s5) @ declared_subdirs ds"
    by (rule Cons.IH[OF s(5)]) (rule Cons.prems(2), simp_all)
  with t2 t3 t4 t5 show ?case by simp
qed

subsection \<open>The key of a file name\<close>


subsection \<open>Running the model on the examples\<close>

text \<open>The definitions a run unfolds, and the run of the small layout: it returns.\<close>

lemmas run_defs =
  render_files_def Template_init_def get_template_def get_source_def Template_render_def
  get_header_def call_write_func_def write_generic_def write_python_def write_shell_def
  write_funcs_def update_depends_def contains_depends_def getitem_depends_def set_update_def
  set_add_def hashable_def
  and_then_def backup_def open_write_def chmod_plus_x_def os_path_exists_def realpath_def
  os_mkdir_def os_symlink_def os_chdir_def create_def os_path_abspath_def path_str_def
  follow_numeral lookup_def resolve_def kresolve_def basename_def str_find_def Let_def

lemma example_run:
  "fst (render (example_env example_templates) example_tree example_state) = Inr ()
   \<and> trace (snd (render (example_env example_templates) example_tree example_state)) =
       [EvBackup ''a.py'', EvWrite ''a.py'' (Text ''print(1)''), EvBackup ''sub'', EvMkdir ''sub'',
        EvChdir ''sub'', EvBackup ''run.sh'', EvWrite ''run.sh'' (Text ''echo''), EvChmod ''run.sh'',
        EvChdir ''/proj'']
   \<and> cwd (snd (render (example_env example_templates) example_tree example_state)) = [''proj'']"
  by (simp add: example_tree_def example_templates_def example_env_def example_state_def
        example_yaml_def beg_str_def end_str_def run_defs)

subsection \<open>A failing file\<close>




subsection \<open>Plain names and the way back\<close>

text \<open>
  A plain name leads to a child of the working directory, and the text of
  \<open>os.path.abspath\<close> leads to the path it was made from. The calls of a render
  remove a directory only by a backup, and the backup of a plain name reaches only what
  is strictly below the working directory: so the directory saved in \<open>pwd\<close> is still a
  directory when the render of a child returns, and \<open>os.chdir(pwd)\<close> leads back to it.
\<close>

lemma keep_dirs_refl: "keep_dirs c st st"
  by (simp add: keep_dirs_def)

lemma keep_dirs_fs: "fs st' = fs st \<Longrightarrow> keep_dirs c st st'"
  by (simp add: keep_dirs_def)

lemma keep_dirs_trans: "keep_dirs c a b \<Longrightarrow> keep_dirs c b d \<Longrightarrow> keep_dirs c a d"
  by (simp add: keep_dirs_def)

lemma dirs_kept_keep: "dirs_kept st st' \<Longrightarrow> keep_dirs c st st'"
  by (simp add: keep_dirs_def dirs_kept_def)

lemma keep_dirs_mono: "prefix c c' \<Longrightarrow> keep_dirs c' st st' \<Longrightarrow> keep_dirs c st st'"
  unfolding keep_dirs_def by (meson prefix_order.le_less_trans)

lemma split_on_plain: "c \<notin> set s \<Longrightarrow> split_on c s = [s]"
  by (induction s) auto

lemma resolve_plain: "plain_name s \<Longrightarrow> resolve c s = c @ [s]"
proof -
  assume p: "plain_name s"
  then have "\<not> prefix ''/'' s"
    by (cases s) (auto simp: plain_name_def)
  with p show ?thesis
    by (simp add: resolve_def plain_name_def split_on_plain)
qed

lemma resolve_dot: "resolve c ''.'' = c"
  by (simp add: resolve_def)

lemma norm_parts_plain: "list_all plain_name cs \<Longrightarrow> norm_parts p cs = p @ cs"
  by (induction cs arbitrary: p) (auto simp: plain_name_def)

lemma split_on_nonempty: "split_on c s \<noteq> []"
  by (cases s) (auto split: list.splits)

lemma split_on_plain_append:
  "c \<notin> set a \<Longrightarrow> split_on c (a @ c # s) = a # split_on c s"
  by (induction a) (auto split: list.splits)

lemma split_on_path:
  "list_all plain_name p \<Longrightarrow> p \<noteq> [] \<Longrightarrow>
   split_on CHR ''/'' (concat (map (\<lambda>c. CHR ''/'' # c) p)) = [] # p"
proof (induction p)
  case Nil
  then show ?case by simp
next
  case (Cons a p)
  then have a: "CHR ''/'' \<notin> set a" by (simp add: plain_name_def)
  show ?case
  proof (cases p)
    case Nil
    with a show ?thesis by (simp add: split_on_plain)
  next
    case (Cons b q)
    with Cons.IH Cons.prems have "split_on CHR ''/'' (concat (map (\<lambda>c. CHR ''/'' # c) p)) = [] # p"
      by simp
    moreover obtain rest where "concat (map (\<lambda>c. CHR ''/'' # c) p) = CHR ''/'' # rest"
      using Cons by simp
    ultimately have "split_on CHR ''/'' (a @ concat (map (\<lambda>c. CHR ''/'' # c) p)) = a # p"
      using split_on_plain_append[OF a, of rest] by simp
    then show ?thesis by simp
  qed
qed

lemma path_str_nonempty: "path_str p \<noteq> []"
  by (cases p) (auto simp: path_str_def)

lemma resolve_path_str: "list_all plain_name p \<Longrightarrow> resolve c (path_str p) = p"
proof (cases "p = []")
  case True
  then show ?thesis by (simp add: path_str_def resolve_def)
next
  case False
  assume v: "list_all plain_name p"
  from False obtain a q where p: "p = a # q" by (cases p) auto
  have pre: "prefix ''/'' (path_str p)"
    by (simp add: path_str_def p)
  from split_on_path[OF v False] have "split_on CHR ''/'' (path_str p) = [] # p"
    using False by (simp add: path_str_def)
  with pre v show ?thesis
    by (simp add: resolve_def norm_parts_plain)
qed

lemma walk_plain: "list_all plain_name cs \<Longrightarrow> walk f p cs = Inr (p @ cs)"
  by (induction cs arbitrary: p) (auto simp: plain_name_def)

lemma kresolve_plain: "plain_name s \<Longrightarrow> kresolve f c s = Inr (c @ [s])"
proof -
  assume p: "plain_name s"
  then have "\<not> prefix ''/'' s"
    by (cases s) (auto simp: plain_name_def)
  with p show ?thesis
    by (simp add: kresolve_def plain_name_def split_on_plain)
qed

lemma kresolve_path_str: "list_all plain_name p \<Longrightarrow> kresolve f c (path_str p) = Inr p"
proof (cases "p = []")
  case True
  then show ?thesis by (simp add: path_str_def kresolve_def lookup_def)
next
  case False
  assume v: "list_all plain_name p"
  from False obtain a q where p: "p = a # q" by (cases p) auto
  have pre: "prefix ''/'' (path_str p)"
    by (simp add: path_str_def p)
  from split_on_path[OF v False] have "split_on CHR ''/'' (path_str p) = [] # p"
    using False by (simp add: path_str_def)
  with pre walk_plain[OF v, of f "[]"] show ?thesis
    by (simp add: kresolve_def lookup_def)
qed

lemma backup_keep_dirs:
  assumes "plain_name n"
  shows "keep_dirs (cwd st) st (snd (backup n st))"
proof -
  have "\<And>P. prefix (cwd st @ [n]) P \<Longrightarrow> strict_prefix (cwd st) P"
    by (auto simp: prefix_def strict_prefix_def)
  then show ?thesis
    by (auto simp: keep_dirs_def backup_def Let_def resolve_plain[OF assms] lookup_def
        split: if_splits)
qed

lemma open_write_dirs_kept:
  assumes "open_write E p c st = (r, st')"
  shows "dirs_kept st st' \<and> cwd st' = cwd st"
proof (cases r)
  case (Inl e)
  with assms open_write_cases[of E p c st e st'] show ?thesis
    by (simp add: dirs_kept_def)
next
  case (Inr u)
  with assms have "open_write E p c st = (Inr u, st')" by simp
  from open_write_ok[OF this] obtain q m where q: "q \<noteq> []"
    "lookup (fs st) q = None \<or> (\<exists>old. lookup (fs st) q = Some (File old m))"
    "st' = st\<lparr>fs := (fs st)(q \<mapsto> File c m), trace := trace st @ [EvWrite p c]\<rparr>"
    by blast
  then show ?thesis
    by (auto simp: dirs_kept_def lookup_def)
qed

lemma chmod_dirs_kept:
  "chmod_plus_x p st = (r, st') \<Longrightarrow> dirs_kept st st' \<and> cwd st' = cwd st"
  by (auto simp: chmod_plus_x_def dirs_kept_def lookup_def
      split: sum.splits option.splits node.splits if_splits)

lemma create_dirs_kept:
  "create p n ev st = (r, st') \<Longrightarrow> dirs_kept st st' \<and> cwd st' = cwd st"
  by (auto simp: create_def dirs_kept_def lookup_def split: sum.splits if_splits)

lemma backup_write_keep:
  assumes "plain_name t"
    and "and_then (backup t st) (\<lambda>u s. open_write E t c s) = (r, st')"
  shows "keep_dirs (cwd st) st st' \<and> cwd st' = cwd st"
proof -
  let ?s1 = "snd (backup t st)"
  from assms(2) have "open_write E t c ?s1 = (r, st')"
    by (subst (asm) backup_result) (simp add: and_then_def)
  from open_write_dirs_kept[OF this] backup_keep_dirs[OF assms(1), of st] show ?thesis
    by (auto simp: backup_cwd intro: keep_dirs_trans dirs_kept_keep)
qed

lemma backup_write_chmod_keep:
  assumes "plain_name t"
    and "and_then (backup t st) (\<lambda>u s.
           and_then (open_write E t c s) (\<lambda>u s2. chmod_plus_x t s2)) = (r, st')"
  shows "keep_dirs (cwd st) st st' \<and> cwd st' = cwd st"
proof -
  let ?s1 = "snd (backup t st)"
  from assms(2) have a: "and_then (open_write E t c ?s1) (\<lambda>u s2. chmod_plus_x t s2) = (r, st')"
    by (subst (asm) backup_result) (simp add: and_then_def)
  obtain r2 s2 where o: "open_write E t c ?s1 = (r2, s2)"
    by (cases "open_write E t c ?s1")
  from open_write_dirs_kept[OF o] backup_keep_dirs[OF assms(1), of st]
  have k2: "keep_dirs (cwd st) st s2" "cwd s2 = cwd st"
    by (auto simp: backup_cwd intro: keep_dirs_trans dirs_kept_keep)
  show ?thesis
  proof (cases r2)
    case (Inl e)
    with a o have "st' = s2" by (simp add: and_then_def)
    with k2 show ?thesis by simp
  next
    case (Inr u)
    with a o have "chmod_plus_x t s2 = (r, st')" by (simp add: and_then_def)
    from chmod_dirs_kept[OF this] k2 show ?thesis
      by (auto intro: keep_dirs_trans dirs_kept_keep)
  qed
qed

lemma call_write_func_keep:
  assumes "plain_name bn" and "w \<noteq> WriteIpython"
    and "call_write_func E w bn rd st = (r, st')"
  shows "keep_dirs (cwd st) st st' \<and> cwd st' = cwd st"
proof (cases w)
  case WriteGeneric
  with assms(3) show ?thesis
    by (intro backup_write_keep[OF assms(1)]) (simp add: call_write_func_def write_generic_def)
next
  case WritePython
  with assms(3) show ?thesis
    by (intro backup_write_keep[OF assms(1)]) (simp add: call_write_func_def write_python_def)
next
  case WriteShell
  with assms(3) show ?thesis
    by (intro backup_write_chmod_keep[OF assms(1)]) (simp add: call_write_func_def write_shell_def)
next
  case WriteIpython
  with assms(2) show ?thesis by simp
qed

lemma Template_render_keep:
  assumes "plain_name (basename (template_fn t))" and "write_func t \<noteq> WriteIpython"
    and "Template_render E t st = (r, st')"
  shows "keep_dirs (cwd st) st st' \<and> cwd st' = cwd st"
proof -
  let ?s2 = "st\<lparr>clock := Suc (Suc (clock st))\<rparr>"
  let ?h = "fst (get_header E st)"
  let ?d = "isoformat E (Suc (clock st))"
  show ?thesis
  proof (cases "jinja_render E (template_source t) ?h ?d")
    case (Inl e)
    with assms(3) have "st' = ?s2"
      by (auto simp: Template_render_def get_header_def Let_def)
    then show ?thesis by (simp add: keep_dirs_def)
  next
    case (Inr rd)
    with assms(3) have "call_write_func E (write_func t) (basename (template_fn t)) rd ?s2 = (r, st')"
      by (auto simp: Template_render_def get_header_def Let_def)
    from call_write_func_keep[OF assms(1,2) this] show ?thesis
      by (simp add: keep_dirs_def)
  qed
qed

lemma render_files_loop_keep:
  "list_all (\<lambda>fn. plain_name (basename fn)) fns \<Longrightarrow>
   render_files_loop E fns deps st = (r, st') \<Longrightarrow>
   keep_dirs (cwd st) st st' \<and> cwd st' = cwd st"
proof (induction fns arbitrary: deps st)
  case Nil
  then show ?case by (simp add: keep_dirs_refl)
next
  case (Cons fn fns)
  obtain r1 s1 where i: "Template_init E fn False st = (r1, s1)"
    by (cases "Template_init E fn False st")
  from Template_init_frame[OF i] have f1: "fs s1 = fs st" "cwd s1 = cwd st"
    by (metis state.select_convs(2) state.surjective state.update_convs(4),
        metis state.select_convs(1) state.surjective state.update_convs(4))
  then have k1: "keep_dirs (cwd st) st s1" by (simp add: keep_dirs_fs)
  show ?case
  proof (cases r1)
    case (Inl e)
    with Cons.prems i have "st' = s1" by simp
    with k1 f1 show ?thesis by simp
  next
    case (Inr t)
    from Template_init_write_func[OF i[unfolded Inr]] have w: "write_func t \<noteq> WriteIpython"
      and f: "template_fn t = fn"
      by (simp_all add: write_funcs_def)
    show ?thesis
    proof (cases "update_depends deps (template_meta t)")
      case (Inl e)
      with Cons.prems i Inr have "st' = s1" by simp
      with k1 f1 show ?thesis by simp
    next
      case d: (Inr deps')
      obtain r2 s2 where rn: "Template_render E t s1 = (r2, s2)"
        by (cases "Template_render E t s1")
      from Cons.prems(1) f have "plain_name (basename (template_fn t))" by simp
      from Template_render_keep[OF this w rn] f1 k1
      have k2: "keep_dirs (cwd st) st s2" "cwd s2 = cwd st"
        by (auto intro: keep_dirs_trans)
      show ?thesis
      proof (cases r2)
        case (Inl e)
        with Cons.prems i Inr d rn have "st' = s2" by simp
        with k2 show ?thesis by simp
      next
        case r2: (Inr u)
        with Cons.prems i Inr d rn have "render_files_loop E fns deps' s2 = (r, st')" by simp
        from Cons.IH[OF _ this] Cons.prems(1) k2 show ?thesis
          by (auto intro: keep_dirs_trans)
      qed
    qed
  qed
qed

lemma link_depends_keep:
  "link_depends deps st = (r, st') \<Longrightarrow> dirs_kept st st' \<and> cwd st' = cwd st"
proof (induction deps arbitrary: st)
  case Nil
  then show ?case by (simp add: dirs_kept_def)
next
  case (Cons dep deps)
  show ?case
  proof (cases dep)
    case (YStr d)
    show ?thesis
    proof (cases "os_path_exists (basename d) st")
      case True
      with Cons.prems YStr have "link_depends deps st = (r, st')" by simp
      from Cons.IH[OF this] show ?thesis .
    next
      case False
      obtain r1 s1 where s: "os_symlink (''../'' @ d) (basename d) st = (r1, s1)"
        by (cases "os_symlink (''../'' @ d) (basename d) st")
      from create_dirs_kept[OF s[unfolded os_symlink_def]]
      have k1: "dirs_kept st s1" "cwd s1 = cwd st" by simp_all
      show ?thesis
      proof (cases r1)
        case (Inl e)
        with Cons.prems YStr False s have "st' = s1" by simp
        with k1 show ?thesis by simp
      next
        case (Inr u)
        with Cons.prems YStr False s have "link_depends deps s1 = (r, st')" by simp
        from Cons.IH[OF this] k1 show ?thesis by (auto simp: dirs_kept_def)
      qed
    qed
  qed (use Cons.prems in \<open>auto simp: dirs_kept_def\<close>)
qed

lemma os_mkdir_plain:
  assumes "plain_name n" and "os_mkdir n st = (Inr (), s2)"
  shows "fs s2 = (fs st)(cwd st @ [n] \<mapsto> Dir) \<and> cwd s2 = cwd st
         \<and> lookup (fs st) (cwd st) = Some Dir"
  using assms(2)
  by (auto simp: os_mkdir_def create_def kresolve_plain[OF assms(1)] split: if_splits)

lemma os_chdir_dir:
  assumes "p \<noteq> []" and "kresolve (fs st) (cwd st) p = Inr q" and "lookup (fs st) q = Some Dir"
  shows "os_chdir p st = (Inr (), st\<lparr>cwd := q, trace := trace st @ [EvChdir p]\<rparr>)"
proof -
  have "follow (fs st) 40 q = Inr q"
    by (rule follow_stop) (simp add: assms(3))
  with assms show ?thesis
    by (simp add: os_chdir_def realpath_def)
qed

lemma descend_and_return:
  assumes v: "list_all plain_name (cwd st)" and n: "plain_name (name d)"
    and m: "os_mkdir (name d) (snd (backup (name d) st)) = (Inr (), s2)"
    and c: "os_chdir (name d) s2 = (Inr (), s3)"
    and ih: "cwd s4 = cwd s3 \<and> keep_dirs (cwd s3) s3 s4"
    and b: "os_chdir (os_path_abspath ''.'' s2) s4 = (Inr (), s5)"
  shows "cwd s3 = cwd st @ [name d] \<and> cwd s5 = cwd st \<and> keep_dirs (cwd st) st s5"
proof -
  let ?s1 = "snd (backup (name d) st)"
  let ?c = "cwd st"
  let ?q = "cwd st @ [name d]"
  have k1: "keep_dirs ?c st ?s1" and c1: "cwd ?s1 = ?c"
    by (simp_all add: backup_keep_dirs[OF n] backup_cwd)
  from os_mkdir_plain[OF n m] c1 have f2: "fs s2 = (fs ?s1)(?q \<mapsto> Dir)" and c2: "cwd s2 = ?c"
    and d1: "lookup (fs ?s1) ?c = Some Dir"
    by simp_all
  have k2: "keep_dirs ?c ?s1 s2"
    using create_dirs_kept[OF m[unfolded os_mkdir_def]] by (simp add: dirs_kept_keep)
  have q2: "lookup (fs s2) ?q = Some Dir"
    by (simp add: f2 lookup_def)
  have d2: "lookup (fs s2) ?c = Some Dir"
    using d1 by (auto simp: f2 lookup_def split: if_splits)
  have "name d \<noteq> []" using n by (simp add: plain_name_def)
  from os_chdir_dir[OF this kresolve_plain[OF n], of s2] q2 c2 c
  have s3: "s3 = s2\<lparr>cwd := ?q, trace := trace s2 @ [EvChdir (name d)]\<rparr>"
    by simp
  then have c3: "cwd s3 = ?q" and f3: "fs s3 = fs s2" by simp_all
  have "\<not> strict_prefix ?q ?c" by (auto simp: strict_prefix_def prefix_def)
  with ih d2 have d4: "lookup (fs s4) ?c = Some Dir"
    by (auto simp: keep_dirs_def c3 f3)
  have pwd: "os_path_abspath ''.'' s2 = path_str ?c"
    by (simp add: os_path_abspath_def resolve_dot c2)
  from os_chdir_dir[OF path_str_nonempty kresolve_path_str[OF v], of s4] d4 b
  have s5: "s5 = s4\<lparr>cwd := ?c, trace := trace s4 @ [EvChdir (path_str ?c)]\<rparr>"
    by (simp add: pwd)
  then have c5: "cwd s5 = ?c" and f5: "fs s5 = fs s4" by simp_all
  have k34: "keep_dirs ?c s3 s4"
    using ih by (intro keep_dirs_mono[of ?c ?q]) (simp_all add: c3)
  have "keep_dirs ?c st s5"
    using k1 k2 keep_dirs_fs[OF f3, of ?c] k34 keep_dirs_fs[OF f5, of ?c]
    by (blast intro: keep_dirs_trans)
  with c3 c5 show ?thesis by simp
qed

lemma render_subdirs_keep:
  assumes "\<And>d s u s'. d \<in> set sds \<Longrightarrow> list_all plain_name (cwd s) \<Longrightarrow>
             render E d s = (Inr u, s') \<Longrightarrow> cwd s' = cwd s \<and> keep_dirs (cwd s) s s'"
    and "list_all (\<lambda>d. plain_name (name d)) sds"
  shows "list_all plain_name (cwd st) \<Longrightarrow> render_subdirs E sds st = (Inr u, st') \<Longrightarrow>
         cwd st' = cwd st \<and> keep_dirs (cwd st) st st'"
  using assms
proof (induction sds arbitrary: st)
  case Nil
  then show ?case by (simp add: keep_dirs_refl)
next
  case (Cons d ds)
  from render_subdirs_Cons_ok[OF Cons.prems(2)] obtain s2 s3 s4 s5 where s:
    "os_mkdir (name d) (snd (backup (name d) st)) = (Inr (), s2)"
    "os_chdir (name d) s2 = (Inr (), s3)"
    "render E d s3 = (Inr (), s4)"
    "os_chdir (os_path_abspath ''.'' s2) s4 = (Inr (), s5)"
    "render_subdirs E ds s5 = (Inr u, st')"
    by blast
  from Cons.prems(4) have n: "plain_name (name d)" and ns: "list_all (\<lambda>d. plain_name (name d)) ds"
    by simp_all
  have c3: "cwd s3 = cwd st @ [name d]"
  proof -
    from os_mkdir_plain[OF n s(1)] have "lookup (fs s2) (cwd s2 @ [name d]) = Some Dir"
      and "cwd s2 = cwd st"
      by (simp_all add: lookup_def backup_cwd)
    moreover have "name d \<noteq> []" using n by (simp add: plain_name_def)
    ultimately show ?thesis
      using os_chdir_dir[OF _ kresolve_plain[OF n], of s2] s(2) by simp
  qed
  then have v3: "list_all plain_name (cwd s3)"
    using Cons.prems(1) n by simp
  have ih: "cwd s4 = cwd s3 \<and> keep_dirs (cwd s3) s3 s4"
    by (rule Cons.prems(3)[OF _ v3 s(3)]) simp
  from descend_and_return[OF Cons.prems(1) n s(1) s(2) ih s(4)]
  have c5: "cwd s5 = cwd st" and k5: "keep_dirs (cwd st) st s5" by simp_all
  have v5: "list_all plain_name (cwd s5)"
    using Cons.prems(1) c5 by simp
  have "cwd st' = cwd s5 \<and> keep_dirs (cwd s5) s5 st'"
    by (rule Cons.IH[OF v5 s(5) _ ns]) (rule Cons.prems(3), simp_all)
  with c5 k5 show ?case
    by (auto intro: keep_dirs_trans)
qed

lemma render_keep:
  "plain_tree t \<Longrightarrow> list_all plain_name (cwd st) \<Longrightarrow> render E t st = (Inr u, st') \<Longrightarrow>
   cwd st' = cwd st \<and> keep_dirs (cwd st) st st'"
proof (induction t arbitrary: st u st')
  case (TemplateDir n fns sds)
  from render_ok[OF TemplateDir.prems(3)] obtain deps s1 s2 where s:
    "render_files_loop E fns [] st = (Inr deps, s1)"
    "link_depends (set_iter E deps) s1 = (Inr (), s2)"
    "render_subdirs E sds s2 = (Inr u, st')"
    by blast
  from TemplateDir.prems(1) have pf: "list_all (\<lambda>fn. plain_name (basename fn)) fns"
    and pn: "list_all (\<lambda>d. plain_name (name d)) sds"
    and pt: "\<And>d. d \<in> set sds \<Longrightarrow> plain_tree d"
    by (simp_all add: list_all_iff)
  from render_files_loop_keep[OF pf s(1)]
  have k1: "keep_dirs (cwd st) st s1" "cwd s1 = cwd st" by simp_all
  from link_depends_keep[OF s(2)] k1
  have k2: "keep_dirs (cwd st) st s2" "cwd s2 = cwd st"
    by (auto intro: keep_dirs_trans dirs_kept_keep)
  have v2: "list_all plain_name (cwd s2)"
    using TemplateDir.prems(2) k2 by simp
  have "cwd st' = cwd s2 \<and> keep_dirs (cwd s2) s2 st'"
  proof (rule render_subdirs_keep[OF _ pn v2 s(3)])
    fix d s u s'
    assume "d \<in> set sds" "list_all plain_name (cwd s)" "render E d s = (Inr u, s')"
    then show "cwd s' = cwd s \<and> keep_dirs (cwd s) s s'"
      using TemplateDir.IH[of d s u s'] pt by simp
  qed
  with k2 show ?case by (auto intro: keep_dirs_trans)
qed

subsection \<open>One child of the loop\<close>

text \<open>
  Entering a child leaves the parent's directory a directory, and the way back does not
  fail: when the render of the child returns, the loop goes on in the directory it came
  from. A render that raises leaves the working directory where it was or below it.
\<close>

lemma enter_child:
  assumes v: "list_all plain_name (cwd st)" and n: "plain_name (name d)"
    and m: "os_mkdir (name d) (snd (backup (name d) st)) = (Inr (), s2)"
    and c: "os_chdir (name d) s2 = (Inr (), s3)"
  shows "cwd s2 = cwd st" and "os_path_abspath ''.'' s2 = path_str (cwd st)"
    and "s3 = s2\<lparr>cwd := cwd st @ [name d], trace := trace s2 @ [EvChdir (name d)]\<rparr>"
    and "lookup (fs s2) (cwd st) = Some Dir"
    and "keep_dirs (cwd st) st s2"
proof -
  let ?s1 = "snd (backup (name d) st)"
  let ?c = "cwd st"
  let ?q = "cwd st @ [name d]"
  have k1: "keep_dirs ?c st ?s1" and c1: "cwd ?s1 = ?c"
    by (simp_all add: backup_keep_dirs[OF n] backup_cwd)
  from os_mkdir_plain[OF n m] c1 have f2: "fs s2 = (fs ?s1)(?q \<mapsto> Dir)" and c2: "cwd s2 = ?c"
    and d1: "lookup (fs ?s1) ?c = Some Dir"
    by simp_all
  have k2: "keep_dirs ?c ?s1 s2"
    using create_dirs_kept[OF m[unfolded os_mkdir_def]] by (simp add: dirs_kept_keep)
  have q2: "lookup (fs s2) ?q = Some Dir"
    by (simp add: f2 lookup_def)
  have d2: "lookup (fs s2) ?c = Some Dir"
    using d1 by (auto simp: f2 lookup_def split: if_splits)
  have "name d \<noteq> []" using n by (simp add: plain_name_def)
  from os_chdir_dir[OF this kresolve_plain[OF n], of s2] q2 c2 c
  have s3: "s3 = s2\<lparr>cwd := ?q, trace := trace s2 @ [EvChdir (name d)]\<rparr>"
    by simp
  show "cwd s2 = cwd st" by (rule c2)
  show "os_path_abspath ''.'' s2 = path_str (cwd st)"
    by (simp add: os_path_abspath_def resolve_dot c2)
  show "s3 = s2\<lparr>cwd := cwd st @ [name d], trace := trace s2 @ [EvChdir (name d)]\<rparr>"
    by (rule s3)
  show "lookup (fs s2) (cwd st) = Some Dir" by (rule d2)
  show "keep_dirs (cwd st) st s2"
    using k1 k2 by (rule keep_dirs_trans)
qed

lemma leave_child:
  assumes v: "list_all plain_name (cwd st)" and n: "plain_name (name d)"
    and m: "os_mkdir (name d) (snd (backup (name d) st)) = (Inr (), s2)"
    and c: "os_chdir (name d) s2 = (Inr (), s3)"
    and ih: "cwd s4 = cwd s3 \<and> keep_dirs (cwd s3) s3 s4"
  shows "os_chdir (os_path_abspath ''.'' s2) s4 =
           (Inr (), s4\<lparr>cwd := cwd st, trace := trace s4 @ [EvChdir (path_str (cwd st))]\<rparr>)"
proof -
  let ?c = "cwd st"
  let ?q = "cwd st @ [name d]"
  note e = enter_child[OF v n m c]
  from e(3) have c3: "cwd s3 = ?q" and f3: "fs s3 = fs s2" by simp_all
  have "\<not> strict_prefix ?q ?c" by (auto simp: strict_prefix_def prefix_def)
  with ih e(4) have d4: "lookup (fs s4) ?c = Some Dir"
    by (auto simp: keep_dirs_def c3 f3)
  from os_chdir_dir[OF path_str_nonempty kresolve_path_str[OF v] d4] e(2)
  show ?thesis by simp
qed

lemma child_returns:
  assumes v: "list_all plain_name (cwd st)" and n: "plain_name (name d)" and pt: "plain_tree d"
    and m: "os_mkdir (name d) (snd (backup (name d) st)) = (Inr (), s2)"
    and c: "os_chdir (name d) s2 = (Inr (), s3)"
    and rd: "render E d s3 = (Inr u, s4)"
  shows "os_chdir (os_path_abspath ''.'' s2) s4 =
           (Inr (), s4\<lparr>cwd := cwd st, trace := trace s4 @ [EvChdir (path_str (cwd st))]\<rparr>)"
    and "render_subdirs E (d # rest) st =
           render_subdirs E rest
             (s4\<lparr>cwd := cwd st, trace := trace s4 @ [EvChdir (path_str (cwd st))]\<rparr>)"
    and "keep_dirs (cwd st) st s4"
proof -
  note e = enter_child[OF v n m c]
  from e(3) have c3: "cwd s3 = cwd st @ [name d]" and f3: "fs s3 = fs s2" by simp_all
  from v n c3 have v3: "list_all plain_name (cwd s3)" by simp
  from render_keep[OF pt v3 rd] have ih: "cwd s4 = cwd s3 \<and> keep_dirs (cwd s3) s3 s4" .
  show b: "os_chdir (os_path_abspath ''.'' s2) s4 =
           (Inr (), s4\<lparr>cwd := cwd st, trace := trace s4 @ [EvChdir (path_str (cwd st))]\<rparr>)"
    by (rule leave_child[OF v n m c ih])
  show "render_subdirs E (d # rest) st =
           render_subdirs E rest
             (s4\<lparr>cwd := cwd st, trace := trace s4 @ [EvChdir (path_str (cwd st))]\<rparr>)"
    by (subst render_subdirs.simps, subst backup_result) (simp add: m c rd b Let_def)
  have k34: "keep_dirs (cwd st) s3 s4"
    using ih by (intro keep_dirs_mono[of "cwd st" "cwd st @ [name d]"]) (simp_all add: c3)
  show "keep_dirs (cwd st) st s4"
    using e(5) keep_dirs_fs[OF f3, of "cwd st"] k34 by (blast intro: keep_dirs_trans)
qed

lemma render_subdirs_cwd:
  assumes "\<And>d s r s'. d \<in> set sds \<Longrightarrow> list_all plain_name (cwd s) \<Longrightarrow>
             render E d s = (r, s') \<Longrightarrow> prefix (cwd s) (cwd s')"
    and "list_all (\<lambda>d. plain_name (name d) \<and> plain_tree d) sds"
  shows "list_all plain_name (cwd st) \<Longrightarrow> render_subdirs E sds st = (r, st') \<Longrightarrow>
         prefix (cwd st) (cwd st')"
  using assms
proof (induction sds arbitrary: st)
  case Nil
  then show ?case by simp
next
  case (Cons d ds)
  let ?s1 = "snd (backup (name d) st)"
  from Cons.prems(4) have n: "plain_name (name d)" and pt: "plain_tree d"
    and ns: "list_all (\<lambda>d. plain_name (name d) \<and> plain_tree d) ds"
    by simp_all
  obtain r2 s2 where m: "os_mkdir (name d) ?s1 = (r2, s2)"
    by (cases "os_mkdir (name d) ?s1")
  show ?case
  proof (cases r2)
    case (Inl e)
    with Cons.prems(2) m have "st' = s2"
      by (subst (asm) render_subdirs.simps, subst (asm) backup_result) simp
    moreover from create_trace[OF m[unfolded os_mkdir_def]] Inl have "s2 = ?s1" by simp
    ultimately show ?thesis by (simp add: backup_cwd)
  next
    case m2: (Inr u2)
    obtain r3 s3 where c: "os_chdir (name d) s2 = (r3, s3)"
      by (cases "os_chdir (name d) s2")
    from create_dirs_kept[OF m[unfolded os_mkdir_def]] have c2: "cwd s2 = cwd st"
      by (simp add: backup_cwd)
    show ?thesis
    proof (cases r3)
      case (Inl e)
      with Cons.prems(2) m m2 c have "st' = s3"
        by (subst (asm) render_subdirs.simps, subst (asm) backup_result) (simp add: Let_def)
      moreover from os_chdir_trace[OF c] Inl have "s3 = s2" by simp
      ultimately show ?thesis by (simp add: c2)
    next
      case c3: (Inr u3)
      from m m2 have m': "os_mkdir (name d) ?s1 = (Inr (), s2)" by simp
      from c c3 have c': "os_chdir (name d) s2 = (Inr (), s3)" by simp
      from enter_child(3)[OF Cons.prems(1) n m' c'] have q3: "cwd s3 = cwd st @ [name d]"
        by simp
      with Cons.prems(1) n have v3: "list_all plain_name (cwd s3)" by simp
      obtain r4 s4 where rd: "render E d s3 = (r4, s4)"
        by (cases "render E d s3")
      show ?thesis
      proof (cases r4)
        case (Inl e)
        with Cons.prems(2) m m2 c c3 rd have "st' = s4"
          by (subst (asm) render_subdirs.simps, subst (asm) backup_result) (simp add: Let_def)
        moreover have "prefix (cwd s3) (cwd s4)"
          by (rule Cons.prems(3)[OF _ v3 rd]) simp
        ultimately show ?thesis by (simp add: q3 append_prefixD)
      next
        case r4: (Inr u4)
        let ?s5 = "s4\<lparr>cwd := cwd st, trace := trace s4 @ [EvChdir (path_str (cwd st))]\<rparr>"
        from rd r4 have rd': "render E d s3 = (Inr u4, s4)" by simp
        from child_returns(2)[OF Cons.prems(1) n pt m' c' rd', of ds] Cons.prems(2)
        have rec: "render_subdirs E ds ?s5 = (r, st')" by simp
        have v5: "list_all plain_name (cwd ?s5)" using Cons.prems(1) by simp
        have "prefix (cwd ?s5) (cwd st')"
          by (rule Cons.IH[OF v5 rec _ ns]) (rule Cons.prems(3), simp_all)
        then show ?thesis by simp
      qed
    qed
  qed
qed

lemma render_cwd:
  "plain_tree t \<Longrightarrow> list_all plain_name (cwd st) \<Longrightarrow> render E t st = (r, st') \<Longrightarrow>
   prefix (cwd st) (cwd st')"
proof (induction t arbitrary: st r st')
  case (TemplateDir n fns sds)
  from TemplateDir.prems(1) have pf: "list_all (\<lambda>fn. plain_name (basename fn)) fns"
    and pn: "list_all (\<lambda>d. plain_name (name d) \<and> plain_tree d) sds"
    and pt: "\<And>d. d \<in> set sds \<Longrightarrow> plain_tree d"
    by (simp_all add: list_all_iff)
  obtain r1 s1 where f: "render_files_loop E fns [] st = (r1, s1)"
    by (cases "render_files_loop E fns [] st")
  from render_files_loop_keep[OF pf f] have c1: "cwd s1 = cwd st" by simp
  show ?case
  proof (cases r1)
    case (Inl e)
    with TemplateDir.prems(3) f have "st' = s1" by (simp add: render_files_def)
    with c1 show ?thesis by simp
  next
    case r1: (Inr deps)
    obtain r2 s2 where l: "link_depends (set_iter E deps) s1 = (r2, s2)"
      by (cases "link_depends (set_iter E deps) s1")
    from link_depends_keep[OF l] c1 have c2: "cwd s2 = cwd st" by simp
    show ?thesis
    proof (cases r2)
      case (Inl e)
      with TemplateDir.prems(3) f r1 l have "st' = s2" by (simp add: render_files_def)
      with c2 show ?thesis by simp
    next
      case (Inr u)
      with TemplateDir.prems(3) f r1 l have rs: "render_subdirs E sds s2 = (r, st')"
        by (simp add: render_files_def)
      have v2: "list_all plain_name (cwd s2)"
        using TemplateDir.prems(2) c2 by simp
      have "prefix (cwd s2) (cwd st')"
      proof (rule render_subdirs_cwd[OF _ pn v2 rs])
        fix d s r s'
        assume "d \<in> set sds" "list_all plain_name (cwd s)" "render E d s = (r, s')"
        then show "prefix (cwd s) (cwd s')"
          using TemplateDir.IH[of d s r s'] pt by simp
      qed
      with c2 show ?thesis by simp
    qed
  qed
qed

subsection \<open>Linking a dependency twice\<close>

text \<open>
  When \<open>os.path.exists\<close> holds for the base name, the linking step does nothing. So a
  second step for the same name does nothing when the first has made a link to a file
  that is there: the link stays as it is.
\<close>

lemma link_depends_existing:
  "os_path_exists (basename d) st \<Longrightarrow> link_depends [YStr d] st = (Inr (), st)"
  by simp

lemma link_depends_twice_existing:
  assumes "\<not> os_path_exists (basename d) st"
    and "link_depends [YStr d] st = (Inr (), s1)"
    and "kresolve (fs st) (butlast (resolve (cwd st) (basename d))) (''../'' @ d) = Inr p"
    and "lookup (fs st) p = Some (File c m)"
  shows "fs s1 (resolve (cwd st) (basename d)) = Some (Link (''../'' @ d))
         \<and> link_depends [YStr d] s1 = (Inr (), s1)"
proof -
  let ?bn = "basename d"
  let ?q = "resolve (cwd st) ?bn"
  let ?t = "''../'' @ d"
  from assms(1,2) have sl: "os_symlink ?t ?bn st = (Inr (), s1)"
    by (auto simp: Let_def split: prod.splits sum.splits)
  then obtain q' where bn: "?bn \<noteq> []" and k: "kresolve (fs st) (cwd st) ?bn = Inr q'"
    and qn': "lookup (fs st) q' = None"
    and s1': "s1 = st\<lparr>fs := (fs st)(q' \<mapsto> Link ?t), trace := trace st @ [EvSymlink ?t ?bn]\<rparr>"
    by (auto simp: os_symlink_def create_def split: sum.splits if_splits)
  from kresolve_resolve[OF k] have q': "q' = ?q" .
  from qn' q' have qn: "lookup (fs st) ?q = None" by simp
  from s1' q' have s1: "s1 = st\<lparr>fs := (fs st)(?q \<mapsto> Link ?t),
                                 trace := trace st @ [EvSymlink ?t ?bn]\<rparr>"
    by simp
  from qn have q0: "?q \<noteq> []" by (auto simp: lookup_def split: if_splits)
  from qn have nd: "lookup (fs st) ?q \<noteq> Some Dir" by simp
  from qn assms(4) have pq: "p \<noteq> ?q" by auto
  have f1: "fs s1 = (fs st)(?q \<mapsto> Link ?t)" and c1: "cwd s1 = cwd st"
    by (simp_all add: s1)
  have kq: "kresolve (fs s1) (cwd s1) ?bn = Inr ?q"
    unfolding f1 c1 using k q' by (intro kresolve_upd[OF q0 nd]) simp
  have kp: "kresolve (fs s1) (butlast ?q) ?t = Inr p"
    unfolding f1 by (rule kresolve_upd[OF q0 nd assms(3)])
  have lq: "lookup (fs s1) ?q = Some (Link ?t)"
    unfolding f1 by (simp add: lookup_upd[OF q0])
  have lp: "lookup (fs s1) p = Some (File c m)"
    unfolding f1 using assms(4) pq by (simp add: lookup_upd[OF q0])
  have fp: "follow (fs s1) 39 p = Inr p"
    by (rule follow_stop) (use lp in simp)
  have "follow (fs s1) 40 ?q = follow (fs s1) (Suc 39) ?q"
    by simp
  also have "\<dots> = (case kresolve (fs s1) (butlast ?q) ?t of Inl e \<Rightarrow> Inl e
                     | Inr q' \<Rightarrow> follow (fs s1) 39 q')"
    by (simp only: follow.simps lq option.case node.case) simp
  also have "\<dots> = Inr p"
    by (simp only: kp sum.case fp)
  finally have "follow (fs s1) 40 ?q = Inr p" .
  then have "realpath ?bn s1 = Inr p"
    using bn by (simp only: realpath_def kq sum.case if_False)
  then have "os_path_exists ?bn s1"
    using lp by (simp add: os_path_exists_def)
  from link_depends_existing[OF this] show ?thesis
    by (simp add: f1)
qed

section \<open>The metadata block\<close>

text \<open>
  C5. When the begin marker does not occur in the source of a template, \<open>get_source\<close>
  returns the source as it is and stores the empty mapping under the file name of the
  template; it does not raise.
\<close>

theorem get_source_without_metadata:
  assumes "store E template = Some (source, filename)"
    and "\<nexists>pre post. source = pre @ beg_str @ post"
  shows "get_source E template st =
           (Inr (source, filename), st\<lparr>meta := (meta st)(filename \<mapsto> YMap [])\<rparr>)"
proof -
  from assms(2) have "str_find source beg_str = - 1"
    by (simp add: str_find_absent)
  with assms(1) show ?thesis
    by (simp add: get_source_def)
qed

lemma no_marker_example: "str_find ''print(1)'' beg_str = - 1"
  by (simp add: str_find_def beg_str_def)

theorem get_source_without_metadata_witness:
  "get_source (example_env [(''a.py'', ''print(1)'')]) ''a.py'' example_state =
     (Inr (''print(1)'', ''/pkg/a.py''),
      example_state\<lparr>meta := (meta example_state)(''/pkg/a.py'' \<mapsto> YMap [])\<rparr>)"
proof -
  have s: "store (example_env [(''a.py'', ''print(1)'')]) ''a.py''
             = Some (''print(1)'', ''/pkg/a.py'')"
    by (simp add: example_env_def)
  have a: "\<nexists>pre post. ''print(1)'' = pre @ beg_str @ post"
    by (rule str_find_absent[THEN iffD1, OF no_marker_example])
  show ?thesis
    by (rule get_source_without_metadata[OF s a])
qed

text \<open>
  C3, as the code has it. Let the source be \<open>pre\<close>, the begin marker, \<open>body\<close>, the end
  marker and \<open>post\<close>, the begin marker standing there for the first time and the end
  marker behind \<open>body\<close> being the first one from the begin marker on. Then the text
  returned is \<open>pre\<close>, the end marker and \<open>post\<close>: the begin marker and the block are
  removed, the end marker (the line that closes the docstring) stays. The value stored
  is what the decoder makes of \<open>body\<close>, the text strictly between the markers.
\<close>

theorem get_source_with_metadata:
  assumes "store E template = Some (source, filename)"
    and "source = pre @ beg_str @ body @ end_str @ post"
    and "str_find source beg_str = int (length pre)"
    and "str_find (drop (length pre) source) end_str = int (length beg_str + length body)"
    and "yaml_load E body = Inr v"
  shows "get_source E template st =
           (Inr (pre @ end_str @ post, filename), st\<lparr>meta := (meta st)(filename \<mapsto> v)\<rparr>)"
proof -
  let ?b = "length pre"
  let ?e = "length beg_str + length body + length pre"
  have en: "str_find (slice_from source (int ?b)) end_str + int ?b = int ?e"
    using assms(4) by (simp add: slice_from_nat)
  have "slice source (int (?b + length beg_str)) (int ?e) = body"
    unfolding slice_nat by (simp add: assms(2))
  then have blk: "slice source (int ?b + int (length beg_str)) (int ?e) = body"
    by (simp only: of_nat_add)
  have up: "slice_upto source (int ?b) = pre"
    unfolding slice_upto_nat by (simp add: assms(2))
  have fr: "slice_from source (int ?e) = end_str @ post"
    unfolding slice_from_nat by (simp add: assms(2))
  have ne: "(int ?b = - 1) = False"
    by simp
  show ?thesis
    unfolding get_source_def Let_def
    by (simp only: assms(1) assms(3) assms(5) ne en blk up fr option.case prod.case
          if_False sum.case)
qed

theorem get_source_with_metadata_witness:
  "get_source (example_env [(''a.py'', example_source)]) ''a.py'' example_state =
     (Inr (example_pre @ end_str @ example_post, ''/pkg/a.py''),
      example_state\<lparr>meta := (meta example_state)
         (''/pkg/a.py'' \<mapsto> YMap [(''depends'', YSeq [YStr ''meta.pickl''])])\<rparr>)"
proof -
  let ?E = "example_env [(''a.py'', example_source)]"
  have 1: "store ?E ''a.py'' = Some (example_source, ''/pkg/a.py'')"
    by (simp add: example_env_def)
  have 2: "example_source = example_pre @ beg_str @ example_body @ end_str @ example_post"
    by (simp add: example_source_def)
  have 3: "str_find example_source beg_str = int (length example_pre)"
    by (simp add: str_find_def example_defs)
  have 4: "str_find (drop (length example_pre) example_source) end_str
             = int (length beg_str + length example_body)"
    by (simp add: str_find_def example_defs)
  have 5: "yaml_load ?E example_body = Inr (YMap [(''depends'', YSeq [YStr ''meta.pickl''])])"
    by (simp add: example_defs)
  show ?thesis
    by (rule get_source_with_metadata[OF 1 2 3 4 5])
qed

text \<open>
  C3 as it is stated fails: on the example template the text returned still holds the
  end marker (at index 8), so it is not the source with both markers removed.
\<close>

theorem get_source_keeps_end_marker:
  "fst (get_source (example_env [(''a.py'', example_source)]) ''a.py'' example_state)
     = Inr (example_pre @ end_str @ example_post, ''/pkg/a.py'')
   \<and> example_pre @ end_str @ example_post \<noteq> example_pre @ example_post
   \<and> str_find (example_pre @ end_str @ example_post) end_str = 8"
  by (simp add: get_source_def str_find_def slice_def slice_from_def slice_upto_def
        slice_index_def example_defs)

text \<open>
  C9, for a begin marker that is not at the very start of the source. When the begin
  marker stands first at index \<open>b > 0\<close> and no end marker occurs from there on, and the
  decoder answers \<open>None\<close> on the empty document, then \<open>get_source\<close> does not raise: the
  end index is \<open>b - 1\<close>, the block handed to the decoder is empty, \<open>None\<close> is stored,
  and the text returned is \<open>source[:b] + source[b-1:]\<close>, which repeats the character in
  front of the marker and keeps the marker and all that follows.
\<close>

theorem get_source_without_end_marker:
  assumes "store E template = Some (source, filename)"
    and "str_find source beg_str = int b"
    and "0 < b"
    and "\<nexists>pre post. drop b source = pre @ end_str @ post"
    and "yaml_load E [] = Inr YNull"
  shows "get_source E template st =
           (Inr (take b source @ drop (b - 1) source, filename),
            st\<lparr>meta := (meta st)(filename \<mapsto> YNull)\<rparr>)
         \<and> drop (b - 1) source = source ! (b - 1) # drop b source
         \<and> str_find (slice_from source (int b)) end_str + int b = int b - 1
         \<and> slice source (int b + int (length beg_str)) (int b - 1) = []"
proof -
  have "str_find (drop b source) end_str = - 1"
    using assms(4) by (simp add: str_find_absent)
  then have "str_find (drop b source) end_str + int b = int b - 1"
    by simp
  also have "\<dots> = int (b - 1)"
    using assms(3) by simp
  finally have en: "str_find (drop b source) end_str + int b = int (b - 1)" .
  have "slice source (int (b + length beg_str)) (int (b - 1)) = []"
    unfolding slice_nat by simp
  then have blk: "slice source (int b + int (length beg_str)) (int (b - 1)) = []"
    by (simp only: of_nat_add)
  have ne: "(int b = - 1) = False"
    by simp
  have 1: "get_source E template st =
           (Inr (take b source @ drop (b - 1) source, filename),
            st\<lparr>meta := (meta st)(filename \<mapsto> YNull)\<rparr>)"
    unfolding get_source_def Let_def
    by (simp only: assms(1) assms(2) assms(5) ne en blk slice_upto_nat slice_from_nat
          option.case prod.case if_False sum.case)
  from str_find_found[OF assms(2)] have "b \<le> length source" by simp
  with assms(3) have "b - 1 < length source" by simp
  then have "drop (b - 1) source = source ! (b - 1) # drop (Suc (b - 1)) source"
    by (simp add: Cons_nth_drop_Suc)
  with assms(3) have 2: "drop (b - 1) source = source ! (b - 1) # drop b source"
    by simp
  have 3: "str_find (slice_from source (int b)) end_str + int b = int b - 1"
    using en assms(3) by (simp add: slice_from_nat)
  have 4: "slice source (int b + int (length beg_str)) (int b - 1) = []"
    using blk assms(3) by (simp add: of_nat_diff)
  from 1 2 3 4 show ?thesis by simp
qed

theorem get_source_without_end_marker_witness:
  "get_source (example_env [(''a.py'', example_unclosed)]) ''a.py'' example_state =
     (Inr (''x\<newline>'' @ ''\<newline>'' @ beg_str @ ''depends: q'', ''/pkg/a.py''),
      example_state\<lparr>meta := (meta example_state)(''/pkg/a.py'' \<mapsto> YNull)\<rparr>)"
proof -
  let ?E = "example_env [(''a.py'', example_unclosed)]"
  have 1: "store ?E ''a.py'' = Some (example_unclosed, ''/pkg/a.py'')"
    by (simp add: example_env_def)
  have 2: "str_find example_unclosed beg_str = int 2"
    by (simp add: str_find_def example_unclosed_def beg_str_def)
  have 3: "0 < (2::nat)" by simp
  have "str_find (drop 2 example_unclosed) end_str = - 1"
    by (simp add: str_find_def example_unclosed_def beg_str_def end_str_def)
  then have 4: "\<nexists>pre post. drop 2 example_unclosed = pre @ end_str @ post"
    by (rule str_find_absent[THEN iffD1])
  have 5: "yaml_load ?E [] = Inr YNull"
    by (simp add: example_env_def example_yaml_def)
  have 6: "take 2 example_unclosed @ drop (2 - 1) example_unclosed
             = ''x\<newline>'' @ ''\<newline>'' @ beg_str @ ''depends: q''"
    by (simp add: example_unclosed_def beg_str_def)
  from get_source_without_end_marker[OF 1 2 3 4 5, of example_state] 6 show ?thesis
    by simp
qed

text \<open>
  C9 as it is stated fails when the begin marker opens the source. For the source that
  is the begin marker and \<open>abc\<close>, the end index is \<open>-1\<close>, which Python counts from the
  end: the block handed to the decoder is \<open>ab\<close>, not the empty text, the value stored is
  the string \<open>ab\<close>, not \<open>None\<close>, and the text returned is \<open>c\<close>, without the marker.
\<close>

theorem get_source_marker_at_start:
  "str_find (beg_str @ ''abc'') beg_str = 0
   \<and> str_find (slice_from (beg_str @ ''abc'') 0) end_str = - 1
   \<and> fst (get_source (example_env [(''a.py'', beg_str @ ''abc'')]) ''a.py'' example_state)
       = Inr (''c'', ''/pkg/a.py'')
   \<and> meta (snd (get_source (example_env [(''a.py'', beg_str @ ''abc'')]) ''a.py'' example_state))
       ''/pkg/a.py'' = Some (YStr ''ab'')"
  by (simp add: get_source_def str_find_def slice_def slice_from_def slice_upto_def
        slice_index_def example_env_def example_state_def example_yaml_def beg_str_def
        end_str_def)

section \<open>The writers\<close>

text \<open>
  C7. Each of the four writers calls \<open>backup\<close> on its target path before it opens that
  path for writing, in every state: the events of the call are the backup, then the
  write (and for the shell writer the change of mode) when the call succeeds. No entry
  of the file system is overwritten: a path whose entry changes was free before or was
  renamed aside by the backup. The target of the notebook writer is the name with
  \<open>.py\<close> replaced by \<open>.ipynb\<close>.
\<close>

theorem writers_backup_before_write:
  "backup_before_write (write_generic E fn rendered st) st fn [EvWrite fn (Text rendered)]
   \<and> backup_before_write (write_python E fn rendered st) st fn [EvWrite fn (Text rendered)]
   \<and> backup_before_write (write_shell E fn rendered st) st fn
        [EvWrite fn (Text rendered), EvChmod fn]
   \<and> backup_before_write (write_ipython E fn rendered st) st (str_replace fn ''.py'' ''.ipynb'')
        [EvWrite (str_replace fn ''.py'' ''.ipynb'')
           (Notebook \<lparr>cells = ipython_cells (str_replace fn ''.py'' ''.ipynb'') rendered,
                      kernelspec_name = ''python3'',
                      kernelspec_display_name = ''Python 3''\<rparr>)]"
  unfolding write_generic_def write_python_def write_shell_def write_ipython_def Let_def
  by (intro conjI backup_then_write backup_then_write_chmod)

text \<open>
  C1, as the code has it. In notebook mode the file \<open>cluster.py\<close> goes to the notebook
  writer, which backs up and writes \<open>cluster.ipynb\<close>. For the rendered text of the
  scenario the notebook has three pairs of cells: the first is the heading seeded with the
  name \<open>cluster.ipynb\<close> (the name of the notebook, not of the \<open>.py\<close> file) with the
  empty text in front of the first heading as its code; \<open>Setup\<close> and \<open>Run\<close> follow.
  The seeded pair is there for every file name \<open>fn\<close> the cells are made for (the writer
  passes the \<open>.ipynb\<close> name) and every rendered text.
\<close>

theorem write_ipython_cluster:
  "call_write_func E (write_funcs True (last (split_on CHR ''.'' ''cluster.py'')))
       ''cluster.py'' example_rendered st =
     and_then (backup ''cluster.ipynb'' st) (\<lambda>u st1.
       open_write E ''cluster.ipynb''
         (Notebook \<lparr>cells = [Markdown ''## cluster.ipynb'', Code [],
                              Markdown ''## Setup'', Code ''import os'',
                              Markdown ''## Run'', Code ''print(1)''],
                     kernelspec_name = ''python3'',
                     kernelspec_display_name = ''Python 3''\<rparr>) st1)
   \<and> take 2 (ipython_cells fn rendered) =
       [Markdown (''## '' @ strip fn), Code (strip (hd (re_split rendered)))]"
proof -
  have k: "write_funcs True (last (split_on CHR ''.'' ''cluster.py'')) = WriteIpython"
    by (simp add: write_funcs_def)
  have n: "str_replace ''cluster.py'' ''.py'' ''.ipynb'' = ''cluster.ipynb''"
    by simp
  have "call_write_func E (write_funcs True (last (split_on CHR ''.'' ''cluster.py'')))
       ''cluster.py'' example_rendered st =
     and_then (backup ''cluster.ipynb'' st) (\<lambda>u st1.
       open_write E ''cluster.ipynb''
         (Notebook \<lparr>cells = [Markdown ''## cluster.ipynb'', Code [],
                              Markdown ''## Setup'', Code ''import os'',
                              Markdown ''## Run'', Code ''print(1)''],
                     kernelspec_name = ''python3'',
                     kernelspec_display_name = ''Python 3''\<rparr>) st1)"
    unfolding k call_write_func_def write_ipython_def Let_def n example_cells
    by simp
  then show ?thesis
    by (rule conjI[OF _ ipython_cells_seeded])
qed

text \<open>
  C1 as it is stated fails: run in the example state, the writer leaves at
  \<open>/proj/cluster.ipynb\<close> a notebook of six cells, which is not the two pairs of the
  claim, and its first heading is not the name of the \<open>.py\<close> file.
\<close>

theorem write_ipython_cluster_run:
  "fs (snd (write_ipython (example_env []) ''cluster.py'' example_rendered example_state))
      [''proj'', ''cluster.ipynb'']
     = Some (File (Notebook \<lparr>cells = [Markdown ''## cluster.ipynb'', Code [],
                              Markdown ''## Setup'', Code ''import os'',
                              Markdown ''## Run'', Code ''print(1)''],
                     kernelspec_name = ''python3'',
                     kernelspec_display_name = ''Python 3''\<rparr>) 420)
   \<and> ipython_cells ''cluster.ipynb'' example_rendered
       \<noteq> [Markdown ''## Setup'', Code ''import os'', Markdown ''## Run'', Code ''print(1)'']
   \<and> hd (ipython_cells ''cluster.ipynb'' example_rendered) \<noteq> Markdown ''## cluster.py''"
proof -
  have n: "str_replace ''cluster.py'' ''.py'' ''.ipynb'' = ''cluster.ipynb''"
    by simp
  have r: "resolve [''proj''] ''cluster.ipynb'' = [''proj'', ''cluster.ipynb'']"
    by (simp add: resolve_def)
  have k: "\<And>f. kresolve f [''proj''] ''cluster.ipynb'' = Inr [''proj'', ''cluster.ipynb'']"
    by (simp add: kresolve_def)
  show ?thesis
    unfolding write_ipython_def Let_def n example_cells
    by (simp add: and_then_def backup_def open_write_def os_path_exists_def realpath_def
          follow_numeral lookup_def r k example_env_def example_state_def)
qed

section \<open>Rendering a layout\<close>



text \<open>
  C4, as the code has it. Whatever the environment (the order in which sets are
  iterated, the clock), a render that returns has written the files and made the
  directories of the layout in the order of declaration: the files of a node, then each
  subdirectory followed by its own files and subdirectories.
\<close>

theorem render_creates_in_declared_order:
  "render E t st = (Inr u, st') \<Longrightarrow> created (trace st') = created (trace st) @ declared t"
proof (induction t arbitrary: st u st')
  case (TemplateDir n fns sds)
  from render_ok[OF TemplateDir.prems] obtain deps s1 s2 where s:
    "render_files_loop E fns [] st = (Inr deps, s1)"
    "link_depends (set_iter E deps) s1 = (Inr (), s2)"
    "render_subdirs E sds s2 = (Inr u, st')"
    by blast
  from render_files_loop_created[OF s(1)]
  have t1: "created (trace s1) = created (trace st) @ map (\<lambda>fn. NewFile (basename fn)) fns" .
  from link_depends_trace[OF s(2)] have t2: "created (trace s2) = created (trace s1)"
    by simp
  from render_subdirs_created[OF TemplateDir.IH s(3)]
  have "created (trace st') = created (trace s2) @ declared_subdirs sds"
    by simp
  with t1 t2 show ?case by simp
qed

theorem render_creates_in_declared_order_witness:
  "created (trace (snd (render (example_env example_templates) example_tree example_state)))
     = [NewFile ''a.py'', NewDir ''sub'', NewFile ''run.sh'']"
proof -
  let ?r = "render (example_env example_templates) example_tree example_state"
  have "?r = (fst ?r, snd ?r)" by simp
  with example_run have "?r = (Inr (), snd ?r)" by simp
  from render_creates_in_declared_order[OF this] show ?thesis
    by (simp add: example_state_def example_tree_def basename_def)
qed

text \<open>
  C4 as it is stated fails for the dependency links: they are made in the order in which
  the set \<open>depends\<close> is iterated. For a template that declares \<open>x\<close> and then \<open>y\<close>, a
  run that iterates the set in the order of insertion links \<open>x\<close> first, and a run that
  iterates it the other way round links \<open>y\<close> first; both runs return.
\<close>

theorem links_follow_set_order:
  "fst (render (example_env [(''a.py'', example_two_deps)]) (TemplateDir [] [''a.py''] [])
          example_state) = Inr ()
   \<and> symlinks (trace (snd (render (example_env [(''a.py'', example_two_deps)])
          (TemplateDir [] [''a.py''] []) example_state)))
       = [(''../x'', ''x''), (''../y'', ''y'')]
   \<and> fst (render ((example_env [(''a.py'', example_two_deps)])\<lparr>set_iter := rev\<rparr>)
          (TemplateDir [] [''a.py''] []) example_state) = Inr ()
   \<and> symlinks (trace (snd (render ((example_env [(''a.py'', example_two_deps)])\<lparr>set_iter := rev\<rparr>)
          (TemplateDir [] [''a.py''] []) example_state)))
       = [(''../y'', ''y''), (''../x'', ''x'')]"
  by (simp add: example_two_deps_def example_pre_def example_post_def example_env_def
        example_state_def example_yaml_def beg_str_def end_str_def run_defs
        slice_def slice_from_def slice_upto_def slice_index_def)



text \<open>
  C6, on a dependency that is not there yet. In the directory \<open>/proj\<close>, where
  \<open>../meta.pickl\<close> does not exist, the linking step makes the link \<open>meta.pickl\<close>.
  \<open>os.path.exists\<close> is false for this dangling link, so a second linking step for the
  same name calls \<open>os.symlink\<close> again, which raises \<open>FileExistsError\<close>. (When the
  walk of the target passes and leads to a file, the second step does nothing:
  \<open>link_depends_twice_existing\<close> above.)
\<close>

theorem link_depends_twice_dangling:
  "fst (link_depends [YStr ''meta.pickl''] example_state) = Inr ()
   \<and> fs (snd (link_depends [YStr ''meta.pickl''] example_state)) [''proj'', ''meta.pickl'']
       = Some (Link ''../meta.pickl'')
   \<and> os_path_exists ''meta.pickl'' (snd (link_depends [YStr ''meta.pickl''] example_state)) = False
   \<and> fst (link_depends [YStr ''meta.pickl'']
            (snd (link_depends [YStr ''meta.pickl''] example_state))) = Inl FileExistsError"
  by (simp add: example_state_def run_defs)

text \<open>
  C2, as the code has it. Take a child with a plain name and a plain layout, made and
  entered from a working directory whose components are plain names. The directory
  saved in \<open>pwd\<close> is the working directory of the parent, and the child is rendered in
  the directory below it. When the render of the child returns, \<open>os.chdir(pwd)\<close>
  succeeds and leads back to the saved directory, and the loop goes on with the next
  sibling from there, whatever the siblings do afterwards. When the render of the child
  raises, the loop is left with that error in the state of the failure: no \<open>os.chdir\<close>
  follows, and the working directory is still strictly below the saved one.
\<close>

theorem cwd_restored_after_each_child:
  assumes "list_all plain_name (cwd st)" and "plain_name (name d)" and "plain_tree d"
    and "os_mkdir (name d) (snd (backup (name d) st)) = (Inr (), s2)"
    and "os_chdir (name d) s2 = (Inr (), s3)"
    and "render E d s3 = (r, s4)"
  shows "os_path_abspath ''.'' s2 = path_str (cwd st) \<and> cwd s3 = cwd st @ [name d]
         \<and> (case r of
              Inr u \<Rightarrow>
                os_chdir (os_path_abspath ''.'' s2) s4 =
                  (Inr (), s4\<lparr>cwd := cwd st, trace := trace s4 @ [EvChdir (path_str (cwd st))]\<rparr>)
                \<and> render_subdirs E (d # rest) st =
                    render_subdirs E rest
                      (s4\<lparr>cwd := cwd st, trace := trace s4 @ [EvChdir (path_str (cwd st))]\<rparr>)
            | Inl e \<Rightarrow>
                render_subdirs E (d # rest) st = (Inl e, s4)
                \<and> strict_prefix (cwd st) (cwd s4))"
proof -
  note e = enter_child[OF assms(1,2,4,5)]
  from e(3) have c3: "cwd s3 = cwd st @ [name d]" by simp
  show ?thesis
  proof (cases r)
    case (Inr u)
    with assms(6) have rd: "render E d s3 = (Inr u, s4)" by simp
    from child_returns(1)[OF assms(1,2,3,4,5) rd] child_returns(2)[OF assms(1,2,3,4,5) rd, of rest]
      e(2) c3 Inr show ?thesis
      by simp
  next
    case (Inl x)
    with assms(6) have rd: "render E d s3 = (Inl x, s4)" by simp
    from assms(1,2) c3 have v3: "list_all plain_name (cwd s3)" by simp
    from render_cwd[OF assms(3) v3 rd] c3 have "prefix (cwd st @ [name d]) (cwd s4)" by simp
    then have "strict_prefix (cwd st) (cwd s4)"
      by (auto simp: strict_prefix_def prefix_def)
    with failing_child_stops_parent[OF assms(4,5) rd, of rest] e(2) c3 Inl show ?thesis
      by simp
  qed
qed

theorem cwd_restored_after_each_child_witness:
  "os_chdir (os_path_abspath ''.'' (snd (os_mkdir ''a'' (snd (backup ''a'' example_state)))))
       (snd (render (example_env [(''a/x.py'', ''print(1)'')]) example_child_a
          (snd (os_chdir ''a'' (snd (os_mkdir ''a'' (snd (backup ''a'' example_state))))))))
     = (Inr (),
        (snd (render (example_env [(''a/x.py'', ''print(1)'')]) example_child_a
          (snd (os_chdir ''a'' (snd (os_mkdir ''a'' (snd (backup ''a'' example_state))))))))
        \<lparr>cwd := [''proj''],
         trace := trace (snd (render (example_env [(''a/x.py'', ''print(1)'')]) example_child_a
                    (snd (os_chdir ''a'' (snd (os_mkdir ''a'' (snd (backup ''a'' example_state))))))))
                  @ [EvChdir ''/proj'']\<rparr>)
   \<and> render_subdirs (example_env [(''a/x.py'', ''print(1)'')]) [example_child_a, example_child_b]
       example_state
     = render_subdirs (example_env [(''a/x.py'', ''print(1)'')]) [example_child_b]
        ((snd (render (example_env [(''a/x.py'', ''print(1)'')]) example_child_a
          (snd (os_chdir ''a'' (snd (os_mkdir ''a'' (snd (backup ''a'' example_state))))))))
        \<lparr>cwd := [''proj''],
         trace := trace (snd (render (example_env [(''a/x.py'', ''print(1)'')]) example_child_a
                    (snd (os_chdir ''a'' (snd (os_mkdir ''a'' (snd (backup ''a'' example_state))))))))
                  @ [EvChdir ''/proj'']\<rparr>)
   \<and> fst (render_subdirs (example_env [(''a/x.py'', ''print(1)'')])
            [example_child_a, example_child_b] example_state) = Inl TemplateNotFound
   \<and> trace (snd (render_subdirs (example_env [(''a/x.py'', ''print(1)'')])
            [example_child_a, example_child_b] example_state))
       = [EvBackup ''a'', EvMkdir ''a'', EvChdir ''a'', EvBackup ''x.py'',
          EvWrite ''x.py'' (Text ''print(1)''), EvChdir ''/proj'',
          EvBackup ''b'', EvMkdir ''b'', EvChdir ''b'']"
proof -
  let ?E = "example_env [(''a/x.py'', ''print(1)'')]"
  let ?s2 = "snd (os_mkdir ''a'' (snd (backup ''a'' example_state)))"
  let ?s3 = "snd (os_chdir ''a'' ?s2)"
  let ?s4 = "snd (render ?E example_child_a ?s3)"
  have nm: "name example_child_a = ''a''"
    by (simp add: example_child_a_def)
  have cw: "cwd example_state = [''proj'']"
    by (simp add: example_state_def)
  have ps: "path_str [''proj''] = ''/proj''"
    by (simp add: path_str_def)
  have v: "list_all plain_name (cwd example_state)"
    by (simp add: example_state_def plain_name_def)
  have n: "plain_name (name example_child_a)"
    by (simp add: example_child_a_def plain_name_def)
  have pt: "plain_tree example_child_a"
    by (simp add: example_child_a_def plain_name_def basename_def)
  have m: "os_mkdir (name example_child_a) (snd (backup (name example_child_a) example_state))
             = (Inr (), ?s2)"
    by (simp add: example_child_a_def example_state_def run_defs)
  have c: "os_chdir (name example_child_a) ?s2 = (Inr (), ?s3)"
    by (simp add: example_child_a_def example_state_def run_defs)
  have rd: "render ?E example_child_a ?s3 = (Inr (), ?s4)"
    by (simp add: example_child_a_def example_env_def example_state_def beg_str_def run_defs)
  have f: "fst (render_subdirs ?E [example_child_a, example_child_b] example_state)
             = Inl TemplateNotFound
           \<and> trace (snd (render_subdirs ?E [example_child_a, example_child_b] example_state))
               = [EvBackup ''a'', EvMkdir ''a'', EvChdir ''a'', EvBackup ''x.py'',
                  EvWrite ''x.py'' (Text ''print(1)''), EvChdir ''/proj'',
                  EvBackup ''b'', EvMkdir ''b'', EvChdir ''b'']"
    by (simp add: example_child_a_def example_child_b_def example_env_def example_state_def
          beg_str_def run_defs)
  note i = cwd_restored_after_each_child[OF v n pt m c rd, of "[example_child_b]",
      unfolded cw ps sum.case, THEN conjunct2, THEN conjunct2]
  from i f show ?thesis by blast
qed

text \<open>
  C2 as it is stated fails: there is no \<open>try\<close> around the recursive call. When the
  render of the child \<open>sub\<close> raises (its template is not in the store), the error
  leaves \<open>render\<close> with the working directory still \<open>/proj/sub\<close>.
\<close>

theorem failing_child_leaves_cwd:
  "cwd example_state = [''proj'']
   \<and> fst (render (example_env []) example_failing_tree example_state) = Inl TemplateNotFound
   \<and> cwd (snd (render (example_env []) example_failing_tree example_state)) = [''proj'', ''sub'']"
  by (simp add: example_failing_tree_def example_env_def example_state_def run_defs)

end
